theory Spec2Isabelle
  imports Complex_Main "HOL-Library.AList"
begin

section \<open>Phase4\_Ultimate: the class-assignment optimizer\<close>

text \<open>
  A shallow embedding of \<^verbatim>\<open>src/Phase4_Ultimate.js\<close> and of the two predicates of
  \<^verbatim>\<open>src/App.HarmonyConstants.js\<close> it calls.

  Conventions of the embedding.
  \<^item> JavaScript numbers are modelled as \<open>real\<close> (scores, ratios, gains) and as \<open>nat\<close> or
    \<open>int\<close> where the source only counts; rounding of IEEE doubles is not modelled.
  \<^item> A spreadsheet row is a list of cells, each cell a string; a read outside the row,
    or at index \<open>-1\<close>, gives \<open>undefined\<close>, which \<^verbatim>\<open>String(x || '')\<close> turns into the
    empty string.
  \<^item> \<^verbatim>\<open>allData\<close> is the array of student objects; \<^verbatim>\<open>allData[i]\<close> outside the array
    is \<open>undefined\<close> (\<open>None\<close>), and reading a property of \<open>undefined\<close> raises a
    \<^verbatim>\<open>TypeError\<close>, which the model returns as \<open>Inl TypeError\<close>.
  \<^item> \<^verbatim>\<open>byClass\<close> is an object used as an insertion-ordered dictionary from class name
    to index list: an association list, iterated in list order.
  \<^item> \<^verbatim>\<open>Math.random()\<close> is an explicit source \<open>rnd :: nat \<Rightarrow> real\<close> read at a
    position that every draw advances by one.
  \<^item> \<^verbatim>\<open>headers\<close> is the header row of the first sheet that has data, or \<^verbatim>\<open>null\<close>
    (\<open>None\<close>) when no sheet has any; calling \<^verbatim>\<open>indexOf\<close> on \<^verbatim>\<open>null\<close> raises.
  \<^item> Strings are texts of ASCII characters: \<^verbatim>\<open>trim\<close> strips the space, the tab and the
    ASCII line and page breaks, \<^verbatim>\<open>toUpperCase\<close> maps the letters a to z; the other white
    space and letters of Unicode are not modelled.
  \<^item> \<^verbatim>\<open>for ... in\<close> over an object visits the keys in the order of their insertion; keys
    that are canonical array indices, which JavaScript visits first and in ascending
    order, are not treated apart, so the model speaks of class names and antinomy codes
    that are not of that form (such as D1).
  \<^item> Logging is dropped.
\<close>

subsection \<open>Errors and strings\<close>

datatype error = TypeError

definition isSpace :: "char \<Rightarrow> bool" where
  "isSpace c = (c \<in> set [CHR '' '', CHR 0x09, CHR 0x0A, CHR 0x0B, CHR 0x0C, CHR 0x0D])"

definition trim :: "string \<Rightarrow> string" where
  "trim s = rev (dropWhile isSpace (rev (dropWhile isSpace s)))"

text \<open>\<^verbatim>\<open>toUpperCase\<close> on the ASCII letters; other bytes are left as they are.\<close>

definition toUpperChar :: "char \<Rightarrow> char" where
  "toUpperChar c =
     (case map_of (zip ''abcdefghijklmnopqrstuvwxyz'' ''ABCDEFGHIJKLMNOPQRSTUVWXYZ'') c of
        None \<Rightarrow> c | Some u \<Rightarrow> u)"

definition toUpperCase :: "string \<Rightarrow> string" where
  "toUpperCase s = map toUpperChar s"

text \<open>\<^verbatim>\<open>hay.includes(needle)\<close>.\<close>

fun str_includes :: "string \<Rightarrow> string \<Rightarrow> bool" where
  "str_includes [] needle = (needle = [])"
| "str_includes (c # cs) needle = (take (length needle) (c # cs) = needle \<or> str_includes cs needle)"

text \<open>\<^verbatim>\<open>xs.indexOf(x)\<close>; \<open>None\<close> stands for \<open>-1\<close>.\<close>

fun indexOf :: "'a list \<Rightarrow> 'a \<Rightarrow> nat option" where
  "indexOf [] x = None"
| "indexOf (y # ys) x = (if y = x then Some 0 else map_option Suc (indexOf ys x))"

text \<open>\<^verbatim>\<open>String(row[i] || '')\<close> and \<^verbatim>\<open>String(row[i] || '').trim().toUpperCase()\<close>.\<close>

definition cellAt :: "string list \<Rightarrow> nat option \<Rightarrow> string" where
  "cellAt r i = (case i of None \<Rightarrow> [] | Some k \<Rightarrow> if k < length r then r ! k else [])"

definition codeAt :: "string list \<Rightarrow> nat option \<Rightarrow> string" where
  "codeAt r i = toUpperCase (trim (cellAt r i))"

subsection \<open>Constants (App.HarmonyConstants.js)\<close>

definition HARMONY_LV2_LIST :: "string list" where
  "HARMONY_LV2_LIST = [''ITA'', ''ESP'', ''ALL'', ''PT'']"

definition HARMONY_OPT_LIST :: "string list" where
  "HARMONY_OPT_LIST = [''CHAV'', ''LATIN'', ''GREC'']"

definition isKnownLV2 :: "string \<Rightarrow> bool" where
  "isKnownLV2 val = (indexOf HARMONY_LV2_LIST val \<noteq> None)"

definition isKnownOPT :: "string \<Rightarrow> bool" where
  "isKnownOPT val = (indexOf HARMONY_OPT_LIST val \<noteq> None)"

subsection \<open>Data model\<close>

record student =
  row :: "string list"
  sexe :: string
  COM :: real
  TRA :: real
  PART :: real
  mobilite :: string
  isHead :: bool
  isNiv1 :: bool

record globalStats =
  ratioF :: real
  avgCOM :: real
  avgTRA :: real
  avgPART :: real

text \<open>
  The fields of \<^verbatim>\<open>ctx\<close> the optimizer reads. Each may be absent (\<open>None\<close>). A target is a
  headcount (\<^verbatim>\<open>{classe: effectif}\<close>), a quota a number that the source compares with 0.
\<close>

record ctx =
  targets :: "(string \<rightharpoonup> nat) option"
  quotas :: "(string \<rightharpoonup> (string \<rightharpoonup> int)) option"
  lv2Universelles :: "string list option"

type_synonym byClass = "(string \<times> nat list) list"

record weights_config =
  distrib :: real
  parity :: real
  profiles :: real
  friends :: real

record targets_config =
  headMin :: real
  headMax :: real
  niv1Max :: real
  niv1Min :: real

record config =
  maxSwaps :: nat
  stagnationLimit :: nat
  weights :: weights_config
  cfg_targets :: targets_config

definition ULTIMATE_CONFIG :: config where
  "ULTIMATE_CONFIG =
     \<lparr> maxSwaps = 2000, stagnationLimit = 50,
       weights = \<lparr> distrib = 5.0, parity = 4.0, profiles = 10.0, friends = 1000.0 \<rparr>,
       cfg_targets = \<lparr> headMin = 2, headMax = 5, niv1Max = 4, niv1Min = 0 \<rparr> \<rparr>"

text \<open>\<^verbatim>\<open>allData[i]\<close>.\<close>

definition elemAt :: "'a list \<Rightarrow> nat \<Rightarrow> 'a option" where
  "elemAt xs i = (if i < length xs then Some (xs ! i) else None)"

text \<open>\<^verbatim>\<open>x || 2.5\<close> on a number: 0 is falsy.\<close>

definition orDefault :: "real \<Rightarrow> real" where
  "orDefault x = (if x = 0 then 2.5 else x)"

subsection \<open>The cost function\<close>

text \<open>
  \<^verbatim>\<open>className && ctx && ctx.targets && ctx.targets[className]\<close>: the target size when the
  whole chain is truthy (an empty class name, an absent table or entry, and the entry 0
  are falsy).
\<close>

definition targetSizeOf :: "string \<Rightarrow> ctx option \<Rightarrow> nat option" where
  "targetSizeOf className ctx =
     (if className = [] then None
      else case ctx of None \<Rightarrow> None
        | Some c \<Rightarrow> (case targets c of None \<Rightarrow> None
            | Some tg \<Rightarrow> (case tg className of None \<Rightarrow> None
                | Some t \<Rightarrow> if t = 0 then None else Some t)))"

definition calculateScore_Ultimate ::
  "nat list \<Rightarrow> student list \<Rightarrow> globalStats \<Rightarrow> string \<Rightarrow> ctx option \<Rightarrow> error + real" where
  "calculateScore_Ultimate indices allData gs className ctx =
     (let students = map (elemAt allData) indices;
          total = length students
      in if total = 0 then Inr 10000
      else
        let score0 = (case targetSizeOf className ctx of
                        None \<Rightarrow> 0
                      | Some targetSize \<Rightarrow> (real total - real targetSize) ^ 2 * 800)
        in if None \<in> set students then Inl TypeError
        else
          let ss = map the students;
              T = cfg_targets ULTIMATE_CONFIG;
              W = weights ULTIMATE_CONFIG;
              nbTetes = real (length (filter isHead ss));
              nbNiv1 = real (length (filter isNiv1 ss));
              score1 = (if nbTetes < headMin T
                        then score0 + (headMin T - nbTetes) ^ 2 * 500 else score0);
              score2 = (if nbTetes > headMax T
                        then score1 + (nbTetes - headMax T) * 200 else score1);
              score3 = (if nbNiv1 > niv1Max T
                        then score2 + (nbNiv1 - niv1Max T) ^ 3 * 100 else score2);
              nbFilles = real (length (filter (\<lambda>s. sexe s = ''F'') ss));
              ratioF_cls = nbFilles / real total;
              score4 = score3 + \<bar>ratioF_cls - ratioF gs\<bar> * 1000 * parity W;
              avgCOM_cls = foldl (\<lambda>acc s. acc + orDefault (COM s)) 0 ss / real total;
              avgTRA_cls = foldl (\<lambda>acc s. acc + orDefault (TRA s)) 0 ss / real total;
              avgPART_cls = foldl (\<lambda>acc s. acc + orDefault (PART s)) 0 ss / real total;
              score5 = score4 + \<bar>avgCOM_cls - avgCOM gs\<bar> * 100 * distrib W;
              score6 = score5 + \<bar>avgTRA_cls - avgTRA gs\<bar> * 100 * distrib W;
              score7 = score6 + \<bar>avgPART_cls - orDefault (avgPART gs)\<bar> * 50 * distrib W
          in Inr score7)"

subsection \<open>Mobility and the feasibility oracle\<close>

definition isFixed :: "student \<Rightarrow> bool" where
  "isFixed st = (let mob = mobilite st in str_includes mob ''FIXE'' \<or> str_includes mob ''NON'')"

text \<open>\<^verbatim>\<open>(ctx && ctx.quotas && ctx.quotas[cls]) || {}\<close> and \<^verbatim>\<open>(ctx && ctx.lv2Universelles) || []\<close>.\<close>

definition quotasOf :: "ctx option \<Rightarrow> string \<Rightarrow> (string \<rightharpoonup> int)" where
  "quotasOf c cls =
     (case c of None \<Rightarrow> Map.empty
      | Some x \<Rightarrow> (case quotas x of None \<Rightarrow> Map.empty
          | Some q \<Rightarrow> (case q cls of None \<Rightarrow> Map.empty | Some t \<Rightarrow> t)))"

definition lv2UniversellesOf :: "ctx option \<Rightarrow> string list" where
  "lv2UniversellesOf c =
     (case c of None \<Rightarrow> [] | Some x \<Rightarrow> (case lv2Universelles x of None \<Rightarrow> [] | Some l \<Rightarrow> l))"

text \<open>\<^verbatim>\<open>q[k] > 0\<close>, which is also the negation of \<^verbatim>\<open>!q[k] || q[k] <= 0\<close>.\<close>

definition positiveQuota :: "(string \<rightharpoonup> int) \<Rightarrow> string \<Rightarrow> bool" where
  "positiveQuota q k = (case q k of None \<Rightarrow> False | Some v \<Rightarrow> 0 < v)"

text \<open>
  The \<^verbatim>\<open>filter\<close> that looks for other members of an ASSO group in the origin class: its
  callback reads \<^verbatim>\<open>allData[idx].row\<close> for every index but the student's own, so one
  undefined entry raises; otherwise the result is whether the filtered list is non-empty.
\<close>

definition assoPeers :: "student list \<Rightarrow> nat option \<Rightarrow> nat list \<Rightarrow> nat \<Rightarrow> string \<Rightarrow> error + bool" where
  "assoPeers allData idxASSO idxList self asso =
     (if \<exists>idx \<in> set idxList. idx \<noteq> self \<and> elemAt allData idx = None then Inl TypeError
      else Inr (\<exists>idx \<in> set idxList. idx \<noteq> self \<and> codeAt (row (allData ! idx)) idxASSO = asso))"

text \<open>
  The DISSO loop over the destination class: the partner that leaves is skipped, the first
  member with the same non-empty code is a conflict.
\<close>

fun dissoConflict :: "student list \<Rightarrow> nat option \<Rightarrow> nat list \<Rightarrow> nat \<Rightarrow> string \<Rightarrow> error + bool" where
  "dissoConflict allData idxDISSO [] leaving disso = Inr False"
| "dissoConflict allData idxDISSO (idx # rest) leaving disso =
     (if idx = leaving then dissoConflict allData idxDISSO rest leaving disso
      else case elemAt allData idx of
        None \<Rightarrow> Inl TypeError
      | Some otherStudent \<Rightarrow>
          (let otherDisso = codeAt (row otherStudent) idxDISSO
           in if otherDisso \<noteq> [] \<and> otherDisso = disso then Inr True
              else dissoConflict allData idxDISSO rest leaving disso))"

text \<open>
  The three elective tests of the source for a student (codes \<open>lv2\<close>, \<open>opt\<close>) entering a
  class with quota table \<open>q\<close>; the source writes them out twice, once per direction.
\<close>

definition electiveRefused :: "string list \<Rightarrow> (string \<rightharpoonup> int) \<Rightarrow> string \<Rightarrow> string \<Rightarrow> bool" where
  "electiveRefused lv2U q lv2 opt =
     ((lv2 \<noteq> [] \<and> indexOf lv2U lv2 = None \<and> isKnownLV2 lv2 \<and> \<not> positiveQuota q lv2)
      \<or> (opt \<noteq> [] \<and> isKnownOPT opt \<and> \<not> positiveQuota q opt)
      \<or> ((positiveQuota q ''LATIN'' \<or> positiveQuota q ''CHAV'')
          \<and> (opt = [] \<or> (opt \<noteq> ''LATIN'' \<and> opt \<noteq> ''CHAV''))
          \<and> lv2 \<noteq> [] \<and> lv2 \<noteq> ''ESP''))"

definition canSwapStudents_Ultimate ::
  "nat \<Rightarrow> nat \<Rightarrow> string \<Rightarrow> string \<Rightarrow> nat list \<Rightarrow> nat list \<Rightarrow> student list
    \<Rightarrow> string list option \<Rightarrow> ctx option \<Rightarrow> error + bool" where
  "canSwapStudents_Ultimate i1 i2 cls1Name cls2Name idxList1 idxList2 allData headersRef c =
     (case headersRef of None \<Rightarrow> Inl TypeError | Some headers \<Rightarrow>
      (let s1 = elemAt allData i1;
          s2 = elemAt allData i2;
          idxLV2 = indexOf headers ''LV2'';
          idxOPT = indexOf headers ''OPT'';
          idxDISSO = indexOf headers ''DISSO'';
          idxASSO = indexOf headers ''ASSO'';
          assoBlocked =
            (if idxASSO = None then Inr False
             else case s1 of None \<Rightarrow> Inl TypeError
               | Some st1 \<Rightarrow> (case s2 of None \<Rightarrow> Inl TypeError
                   | Some st2 \<Rightarrow>
                       (let asso_s1 = codeAt (row st1) idxASSO;
                            asso_s2 = codeAt (row st2) idxASSO
                        in case (if asso_s1 \<noteq> [] then assoPeers allData idxASSO idxList1 i1 asso_s1
                                 else Inr False) of
                             Inl e \<Rightarrow> Inl e
                           | Inr True \<Rightarrow> Inr True
                           | Inr False \<Rightarrow>
                               (if asso_s2 \<noteq> [] then assoPeers allData idxASSO idxList2 i2 asso_s2
                                else Inr False))))
      in case assoBlocked of
           Inl e \<Rightarrow> Inl e
         | Inr True \<Rightarrow> Inr False
         | Inr False \<Rightarrow>
             if idxDISSO = None then Inr False
             else (case s1 of None \<Rightarrow> Inl TypeError
               | Some st1 \<Rightarrow> (case s2 of None \<Rightarrow> Inl TypeError
                   | Some st2 \<Rightarrow>
                       (let lv2_s1 = codeAt (row st1) idxLV2;
                            opt_s1 = codeAt (row st1) idxOPT;
                            lv2_s2 = codeAt (row st2) idxLV2;
                            opt_s2 = codeAt (row st2) idxOPT;
                            disso_s1 = codeAt (row st1) idxDISSO;
                            disso_s2 = codeAt (row st2) idxDISSO;
                            quotas1 = quotasOf c cls1Name;
                            lv2U = lv2UniversellesOf c;
                            quotas2 = quotasOf c cls2Name
                        in if electiveRefused lv2U quotas1 lv2_s2 opt_s2 then Inr False
                           else if electiveRefused lv2U quotas2 lv2_s1 opt_s1 then Inr False
                           else case (if disso_s1 \<noteq> []
                                      then dissoConflict allData idxDISSO idxList2 i2 disso_s1
                                      else Inr False) of
                                  Inl e \<Rightarrow> Inl e
                                | Inr True \<Rightarrow> Inr False
                                | Inr False \<Rightarrow>
                                    (case (if disso_s2 \<noteq> []
                                           then dissoConflict allData idxDISSO idxList1 i1 disso_s2
                                           else Inr False) of
                                       Inl e \<Rightarrow> Inl e
                                     | Inr True \<Rightarrow> Inr False
                                     | Inr False \<Rightarrow> Inr True))))))"

subsection \<open>Two-way swap search\<close>

text \<open>The \<^verbatim>\<open>reason\<close> string of a swap is only logged and is left out.\<close>

record swap =
  swap_idx1 :: nat
  swap_idx2 :: nat
  swap_cls1 :: string
  swap_cls2 :: string
  swap_gain :: real

text \<open>\<^verbatim>\<open>xs[Math.floor(r * xs.length)]\<close>, \<open>undefined\<close> outside the array.\<close>

definition pick :: "'a list \<Rightarrow> real \<Rightarrow> 'a option" where
  "pick xs r = (let k = \<lfloor>r * real (length xs)\<rfloor>
                in if 0 \<le> k \<and> nat k < length xs then Some (xs ! nat k) else None)"

definition addE :: "error + real \<Rightarrow> error + real \<Rightarrow> error + real" where
  "addE a b = (case a of Inl e \<Rightarrow> Inl e
               | Inr x \<Rightarrow> (case b of Inl e \<Rightarrow> Inl e | Inr y \<Rightarrow> Inr (x + y)))"

text \<open>The simulated membership list: \<^verbatim>\<open>list.filter(x => x !== out).concat([inn])\<close>.\<close>

definition replaceMember :: "nat list \<Rightarrow> nat \<Rightarrow> nat \<Rightarrow> nat list" where
  "replaceMember idxList out inn = filter (\<lambda>x. x \<noteq> out) idxList @ [inn]"

text \<open>
  The inner loop (over \<open>j\<close>) and the outer loop (over \<open>i\<close>) of the search; the first
  argument counts the iterations left, \<open>p\<close> is the position in the random source, and the
  pair is \<^verbatim>\<open>(maxGain, bestSwap)\<close>.
\<close>

fun swapInnerLoop ::
  "student list \<Rightarrow> string list option \<Rightarrow> globalStats \<Rightarrow> ctx option \<Rightarrow> (nat \<Rightarrow> real)
    \<Rightarrow> string \<Rightarrow> string \<Rightarrow> nat list \<Rightarrow> nat list \<Rightarrow> real \<Rightarrow> nat
    \<Rightarrow> nat \<Rightarrow> nat \<Rightarrow> real \<times> swap option \<Rightarrow> error + (nat \<times> real \<times> swap option)" where
  "swapInnerLoop allData headers gs c rnd cls1Name cls2Name idxList1 idxList2 scoreBefore i1
     0 p acc = Inr (p, acc)"
| "swapInnerLoop allData headers gs c rnd cls1Name cls2Name idxList1 idxList2 scoreBefore i1
     (Suc n) p acc =
     (case pick idxList2 (rnd p) of
        None \<Rightarrow> Inl TypeError
      | Some i2 \<Rightarrow>
         (case elemAt allData i2 of
            None \<Rightarrow> Inl TypeError
          | Some s2 \<Rightarrow>
              if isFixed s2
              then swapInnerLoop allData headers gs c rnd cls1Name cls2Name idxList1 idxList2
                     scoreBefore i1 n (Suc p) acc
              else (case canSwapStudents_Ultimate i1 i2 cls1Name cls2Name idxList1 idxList2
                           allData headers c of
                      Inl e \<Rightarrow> Inl e
                    | Inr False \<Rightarrow>
                        swapInnerLoop allData headers gs c rnd cls1Name cls2Name idxList1 idxList2
                          scoreBefore i1 n (Suc p) acc
                    | Inr True \<Rightarrow>
                        (let tempList1 = replaceMember idxList1 i1 i2;
                             tempList2 = replaceMember idxList2 i2 i1
                         in case addE (calculateScore_Ultimate tempList1 allData gs cls1Name c)
                                      (calculateScore_Ultimate tempList2 allData gs cls2Name c) of
                              Inl e \<Rightarrow> Inl e
                            | Inr scoreAfter \<Rightarrow>
                                (let gain = scoreBefore - scoreAfter
                                 in swapInnerLoop allData headers gs c rnd cls1Name cls2Name
                                      idxList1 idxList2 scoreBefore i1 n (Suc p)
                                      (if gain > fst acc
                                       then (gain, Some \<lparr> swap_idx1 = i1, swap_idx2 = i2,
                                                          swap_cls1 = cls1Name, swap_cls2 = cls2Name,
                                                          swap_gain = gain \<rparr>)
                                       else acc))))))"

fun swapOuterLoop ::
  "student list \<Rightarrow> string list option \<Rightarrow> globalStats \<Rightarrow> ctx option \<Rightarrow> (nat \<Rightarrow> real)
    \<Rightarrow> string \<Rightarrow> string \<Rightarrow> nat list \<Rightarrow> nat list \<Rightarrow> real \<Rightarrow> nat
    \<Rightarrow> nat \<Rightarrow> nat \<Rightarrow> real \<times> swap option \<Rightarrow> error + (nat \<times> real \<times> swap option)" where
  "swapOuterLoop allData headers gs c rnd cls1Name cls2Name idxList1 idxList2 scoreBefore
     sampleSize 0 p acc = Inr (p, acc)"
| "swapOuterLoop allData headers gs c rnd cls1Name cls2Name idxList1 idxList2 scoreBefore
     sampleSize (Suc n) p acc =
     (case pick idxList1 (rnd p) of
        None \<Rightarrow> Inl TypeError
      | Some i1 \<Rightarrow>
         (case elemAt allData i1 of
            None \<Rightarrow> Inl TypeError
          | Some s1 \<Rightarrow>
              if isFixed s1
              then swapOuterLoop allData headers gs c rnd cls1Name cls2Name idxList1 idxList2
                     scoreBefore sampleSize n (Suc p) acc
              else (case swapInnerLoop allData headers gs c rnd cls1Name cls2Name idxList1
                           idxList2 scoreBefore i1 sampleSize (Suc p) acc of
                      Inl e \<Rightarrow> Inl e
                    | Inr (p', acc') \<Rightarrow>
                        swapOuterLoop allData headers gs c rnd cls1Name cls2Name idxList1 idxList2
                          scoreBefore sampleSize n p' acc')))"

definition findBestSwapBetween_Ultimate ::
  "string \<Rightarrow> string \<Rightarrow> student list \<Rightarrow> byClass \<Rightarrow> string list option \<Rightarrow> globalStats \<Rightarrow> ctx option
    \<Rightarrow> (nat \<Rightarrow> real) \<Rightarrow> nat \<Rightarrow> error + (swap option \<times> nat)" where
  "findBestSwapBetween_Ultimate cls1Name cls2Name allData byClass headers gs c rnd p =
     (case map_of byClass cls1Name of
        None \<Rightarrow> Inl TypeError
      | Some idxList1 \<Rightarrow>
         (case map_of byClass cls2Name of
            None \<Rightarrow> Inl TypeError
          | Some idxList2 \<Rightarrow>
             (case addE (calculateScore_Ultimate idxList1 allData gs cls1Name c)
                        (calculateScore_Ultimate idxList2 allData gs cls2Name c) of
                Inl e \<Rightarrow> Inl e
              | Inr scoreBefore \<Rightarrow>
                 (let sampleSize = min 25 (max (length idxList1) (length idxList2))
                  in case swapOuterLoop allData headers gs c rnd cls1Name cls2Name idxList1
                            idxList2 scoreBefore sampleSize sampleSize p (0, None) of
                       Inl e \<Rightarrow> Inl e
                     | Inr (p', maxGain, bestSwap) \<Rightarrow> Inr (bestSwap, p')))))"

subsection \<open>Cohort statistics, worst class and partner class\<close>

definition calculateGlobalStats_Ultimate :: "student list \<Rightarrow> globalStats" where
  "calculateGlobalStats_Ultimate allData =
     (let total = length allData
      in if total = 0 then \<lparr> ratioF = 0.5, avgCOM = 2.5, avgTRA = 2.5, avgPART = 2.5 \<rparr>
         else
           let nbFilles = real (length (filter (\<lambda>s. sexe s = ''F'') allData));
               sumCOM = foldl (\<lambda>sum s. sum + COM s) 0 allData;
               sumTRA = foldl (\<lambda>sum s. sum + TRA s) 0 allData;
               sumPART = foldl (\<lambda>sum s. sum + orDefault (PART s)) 0 allData
           in \<lparr> ratioF = nbFilles / real total, avgCOM = sumCOM / real total,
                avgTRA = sumTRA / real total, avgPART = sumPART / real total \<rparr>)"

text \<open>
  The loop of \<^verbatim>\<open>findWorstClass_Ultimate\<close> over the entries of \<^verbatim>\<open>byClass\<close>, with the
  running \<^verbatim>\<open>maxScore\<close> and \<^verbatim>\<open>worstClass\<close> (\<open>None\<close> is \<^verbatim>\<open>null\<close>).
\<close>

fun worstLoop ::
  "student list \<Rightarrow> globalStats \<Rightarrow> ctx option \<Rightarrow> byClass \<Rightarrow> real \<Rightarrow> string option
    \<Rightarrow> error + string option" where
  "worstLoop allData gs c [] maxScore worstClass = Inr worstClass"
| "worstLoop allData gs c ((cls, indices) # rest) maxScore worstClass =
     (case calculateScore_Ultimate indices allData gs cls c of
        Inl e \<Rightarrow> Inl e
      | Inr score \<Rightarrow>
          if score > maxScore then worstLoop allData gs c rest score (Some cls)
          else worstLoop allData gs c rest maxScore worstClass)"

definition findWorstClass_Ultimate ::
  "byClass \<Rightarrow> student list \<Rightarrow> globalStats \<Rightarrow> ctx option \<Rightarrow> error + string option" where
  "findWorstClass_Ultimate byClass allData gs c = worstLoop allData gs c byClass (- 1) None"

text \<open>
  The complementarity \<^verbatim>\<open>comp\<close> that the candidate loop of \<^verbatim>\<open>findPartnerClass_Ultimate\<close>
  computes for a non-empty candidate class, from the four figures of the worst class.
\<close>

definition complementarity ::
  "globalStats \<Rightarrow> real \<Rightarrow> real \<Rightarrow> real \<Rightarrow> real \<Rightarrow> student list \<Rightarrow> real" where
  "complementarity gs worstNbTetes worstNbNiv1 worstRatioF worstAvgCOM ss =
     (let T = cfg_targets ULTIMATE_CONFIG;
          clsTotal = length ss;
          clsNbTetes = real (length (filter isHead ss));
          clsNbNiv1 = real (length (filter isNiv1 ss));
          clsRatioF = real (length (filter (\<lambda>s. sexe s = ''F'') ss)) / real clsTotal;
          clsAvgCOM = foldl (\<lambda>s st. s + COM st) 0 ss / real clsTotal;
          teteDiff = (worstNbTetes - headMin T) - (clsNbTetes - headMin T);
          comp1 = 0 + \<bar>teteDiff\<bar> * 3;
          niv1Diff = (worstNbNiv1 - niv1Max T) - (clsNbNiv1 - niv1Max T);
          comp2 = comp1 + \<bar>niv1Diff\<bar> * 3;
          comp3 = (if (worstRatioF > ratioF gs \<and> clsRatioF < ratioF gs)
                      \<or> (worstRatioF < ratioF gs \<and> clsRatioF > ratioF gs)
                   then comp2 + 2 else comp2)
      in if (worstAvgCOM > avgCOM gs \<and> clsAvgCOM < avgCOM gs)
            \<or> (worstAvgCOM < avgCOM gs \<and> clsAvgCOM > avgCOM gs)
         then comp3 + \<bar>worstAvgCOM - clsAvgCOM\<bar> * 2 else comp3)"

text \<open>
  The candidate loop. \<open>bestComplementarity\<close> starts at \<^verbatim>\<open>-Infinity\<close>, modelled as
  \<open>None\<close>.
\<close>

fun partnerLoop ::
  "student list \<Rightarrow> globalStats \<Rightarrow> byClass \<Rightarrow> real \<Rightarrow> real \<Rightarrow> real \<Rightarrow> real \<Rightarrow> string list
    \<Rightarrow> real option \<Rightarrow> string option \<Rightarrow> error + string option" where
  "partnerLoop allData gs byClass worstNbTetes worstNbNiv1 worstRatioF worstAvgCOM []
     bestComplementarity bestPartner = Inr bestPartner"
| "partnerLoop allData gs byClass worstNbTetes worstNbNiv1 worstRatioF worstAvgCOM (cls # rest)
     bestComplementarity bestPartner =
     (case map_of byClass cls of
        None \<Rightarrow> Inl TypeError
      | Some indices \<Rightarrow>
          (let clsStudents = map (elemAt allData) indices;
               clsTotal = length clsStudents
           in if clsTotal = 0
              then partnerLoop allData gs byClass worstNbTetes worstNbNiv1 worstRatioF worstAvgCOM
                     rest bestComplementarity bestPartner
              else if None \<in> set clsStudents then Inl TypeError
              else
                let comp = complementarity gs worstNbTetes worstNbNiv1 worstRatioF worstAvgCOM
                             (map the clsStudents)
                in if (case bestComplementarity of None \<Rightarrow> True | Some b \<Rightarrow> comp > b)
                   then partnerLoop allData gs byClass worstNbTetes worstNbNiv1 worstRatioF
                          worstAvgCOM rest (Some comp) (Some cls)
                   else partnerLoop allData gs byClass worstNbTetes worstNbNiv1 worstRatioF
                          worstAvgCOM rest bestComplementarity bestPartner))"

text \<open>
  The result is the partner (\<open>None\<close> for \<^verbatim>\<open>null\<close> or \<open>undefined\<close>) and the new position in
  the random source: the two early returns draw nothing, the exploration test draws once,
  and a second time when it fires.
\<close>

definition findPartnerClass_Ultimate ::
  "string \<Rightarrow> byClass \<Rightarrow> student list \<Rightarrow> globalStats \<Rightarrow> (nat \<Rightarrow> real) \<Rightarrow> nat
    \<Rightarrow> error + (string option \<times> nat)" where
  "findPartnerClass_Ultimate worstClass byClass allData gs rnd p =
     (let classes = filter (\<lambda>c. c \<noteq> worstClass) (map fst byClass)
      in if length classes = 0 then Inr (None, p)
      else case map_of byClass worstClass of
        None \<Rightarrow> Inl TypeError
      | Some indices \<Rightarrow>
          (let worstStudents = map (elemAt allData) indices;
               worstTotal = length worstStudents
           in if worstTotal = 0 then Inr (None, p)
              else if None \<in> set worstStudents then Inl TypeError
              else
                let ws = map the worstStudents;
                    worstNbTetes = real (length (filter isHead ws));
                    worstNbNiv1 = real (length (filter isNiv1 ws));
                    worstRatioF = real (length (filter (\<lambda>s. sexe s = ''F'') ws)) / real worstTotal;
                    worstAvgCOM = foldl (\<lambda>s st. s + COM st) 0 ws / real worstTotal
                in case partnerLoop allData gs byClass worstNbTetes worstNbNiv1 worstRatioF
                          worstAvgCOM classes None None of
                     Inl e \<Rightarrow> Inl e
                   | Inr bestPartner \<Rightarrow>
                       if rnd p < 0.2 then Inr (pick classes (rnd (Suc p)), Suc (Suc p))
                       else Inr (bestPartner, Suc p)))"

subsection \<open>Applying a swap\<close>

text \<open>
  \<^verbatim>\<open>applySwap_Ultimate\<close> first builds log lines, reading the rows of both students when
  one of the columns NOM, LV2, OPT, DISSO exists, then replaces the two membership lists
  one after the other.
\<close>

definition applySwap_Ultimate ::
  "student list \<Rightarrow> byClass \<Rightarrow> swap \<Rightarrow> string list option \<Rightarrow> error + byClass" where
  "applySwap_Ultimate allData byClass sw headersRef =
     (case headersRef of None \<Rightarrow> Inl TypeError | Some headers \<Rightarrow>
      (let i1 = swap_idx1 sw; i2 = swap_idx2 sw;
          readsRows = (indexOf headers ''NOM'' \<noteq> None \<or> indexOf headers ''LV2'' \<noteq> None
                       \<or> indexOf headers ''OPT'' \<noteq> None \<or> indexOf headers ''DISSO'' \<noteq> None)
      in if readsRows \<and> (elemAt allData i1 = None \<or> elemAt allData i2 = None) then Inl TypeError
      else case map_of byClass (swap_cls1 sw) of
        None \<Rightarrow> Inl TypeError
      | Some l1 \<Rightarrow>
          (let byClass1 = AList.update (swap_cls1 sw) (replaceMember l1 i1 i2) byClass
           in case map_of byClass1 (swap_cls2 sw) of
                None \<Rightarrow> Inl TypeError
              | Some l2 \<Rightarrow> Inr (AList.update (swap_cls2 sw) (replaceMember l2 i2 i1) byClass1))))"

subsection \<open>The two-way loop of the driver\<close>

record lstate =
  st_byClass :: byClass
  st_swapsApplied :: nat
  st_stagnationCount :: nat
  st_swaps3Way :: nat
  st_pos :: nat

datatype flow = Break | Continue

text \<open>\<^verbatim>\<open>!key\<close> on a class key: \<^verbatim>\<open>null\<close>, \<open>undefined\<close> and the empty string are falsy.\<close>

definition truthyKey :: "string option \<Rightarrow> bool" where
  "truthyKey k = (case k of None \<Rightarrow> False | Some n \<Rightarrow> n \<noteq> [])"

text \<open>One iteration of the \<^verbatim>\<open>for (iter ...)\<close> loop of \<^verbatim>\<open>Phase4_Ultimate_Run\<close>.\<close>

definition twoWayIter ::
  "student list \<Rightarrow> string list option \<Rightarrow> globalStats \<Rightarrow> ctx option \<Rightarrow> (nat \<Rightarrow> real) \<Rightarrow> lstate
    \<Rightarrow> error + (flow \<times> lstate)" where
  "twoWayIter allData headers gs c rnd s =
     (case findWorstClass_Ultimate (st_byClass s) allData gs c of
        Inl e \<Rightarrow> Inl e
      | Inr worstClassKey \<Rightarrow>
          if \<not> truthyKey worstClassKey then Inr (Break, s)
          else
            (case findPartnerClass_Ultimate (the worstClassKey) (st_byClass s) allData gs rnd
                    (st_pos s) of
               Inl e \<Rightarrow> Inl e
             | Inr (partnerClassKey, p1) \<Rightarrow>
                 if \<not> truthyKey partnerClassKey
                 then (let s1 = s\<lparr> st_stagnationCount := st_stagnationCount s + 1, st_pos := p1 \<rparr>
                       in if st_stagnationCount s1 > 10 then Inr (Break, s1)
                          else Inr (Continue, s1))
                 else
                   (case findBestSwapBetween_Ultimate (the worstClassKey) (the partnerClassKey)
                           allData (st_byClass s) headers gs c rnd p1 of
                      Inl e \<Rightarrow> Inl e
                    | Inr (bestSwap, p2) \<Rightarrow>
                        (case (if bestSwap \<noteq> None \<and> swap_gain (the bestSwap) > 0.0001
                               then (case applySwap_Ultimate allData (st_byClass s) (the bestSwap)
                                            headers of
                                       Inl e \<Rightarrow> Inl e
                                     | Inr byClass' \<Rightarrow>
                                         Inr (s\<lparr> st_byClass := byClass',
                                                 st_swapsApplied := st_swapsApplied s + 1,
                                                 st_stagnationCount := 0, st_pos := p2 \<rparr>))
                               else Inr (s\<lparr> st_stagnationCount := st_stagnationCount s + 1,
                                            st_pos := p2 \<rparr>)) of
                           Inl e \<Rightarrow> Inl e
                         | Inr s2 \<Rightarrow>
                             if st_stagnationCount s2 \<ge> stagnationLimit ULTIMATE_CONFIG
                             then Inr (Break, s2) else Inr (Continue, s2)))))"

fun twoWayLoop ::
  "student list \<Rightarrow> string list option \<Rightarrow> globalStats \<Rightarrow> ctx option \<Rightarrow> (nat \<Rightarrow> real) \<Rightarrow> nat \<Rightarrow> lstate
    \<Rightarrow> error + lstate" where
  "twoWayLoop allData headers gs c rnd 0 s = Inr s"
| "twoWayLoop allData headers gs c rnd (Suc n) s =
     (case twoWayIter allData headers gs c rnd s of
        Inl e \<Rightarrow> Inl e
      | Inr (Break, s') \<Rightarrow> Inr s'
      | Inr (Continue, s') \<Rightarrow> twoWayLoop allData headers gs c rnd n s')"

subsection \<open>The three-way rotation phase\<close>

record rotation =
  rot_a :: nat
  rot_b :: nat
  rot_c :: nat
  rot_c1 :: string
  rot_c2 :: string
  rot_c3 :: string

text \<open>\<^verbatim>\<open>isFixed(allData[a])\<close> for a sampled \<open>a\<close>, which is \<open>undefined\<close> when the draw missed.\<close>

definition isFixedAt :: "student list \<Rightarrow> nat option \<Rightarrow> error + bool" where
  "isFixedAt allData a =
     (case a of None \<Rightarrow> Inl TypeError
      | Some i \<Rightarrow> (case elemAt allData i of None \<Rightarrow> Inl TypeError | Some st \<Rightarrow> Inr (isFixed st)))"

text \<open>
  The body of the \<^verbatim>\<open>for (s ...)\<close> loop after the three draws. \<open>Inr None\<close> is a
  \<^verbatim>\<open>continue\<close> before the scores are computed; \<open>Inr (Some gain3)\<close> means that the
  rotation \<open>a \<rightarrow> c2\<close>, \<open>b \<rightarrow> c3\<close>, \<open>c \<rightarrow> c1\<close> was simulated and scored.
\<close>

definition evalRotation ::
  "student list \<Rightarrow> string list option \<Rightarrow> globalStats \<Rightarrow> ctx option \<Rightarrow> string \<Rightarrow> string \<Rightarrow> string
    \<Rightarrow> nat list \<Rightarrow> nat list \<Rightarrow> nat list \<Rightarrow> real \<Rightarrow> nat option \<Rightarrow> nat option \<Rightarrow> nat option
    \<Rightarrow> error + real option" where
  "evalRotation allData headers gs c c1 c2 c3 l1 l2 l3 scoreBefore3 a b cc =
     (case isFixedAt allData a of Inl e \<Rightarrow> Inl e | Inr True \<Rightarrow> Inr None | Inr False \<Rightarrow>
      (case isFixedAt allData b of Inl e \<Rightarrow> Inl e | Inr True \<Rightarrow> Inr None | Inr False \<Rightarrow>
       (case isFixedAt allData cc of Inl e \<Rightarrow> Inl e | Inr True \<Rightarrow> Inr None | Inr False \<Rightarrow>
        (case canSwapStudents_Ultimate (the a) (the b) c1 c2 l1 l2 allData headers c of
           Inl e \<Rightarrow> Inl e
         | Inr False \<Rightarrow> Inr None
         | Inr True \<Rightarrow>
            (case canSwapStudents_Ultimate (the b) (the cc) c2 c3 l2 l3 allData headers c of
               Inl e \<Rightarrow> Inl e
             | Inr False \<Rightarrow> Inr None
             | Inr True \<Rightarrow>
                (let tempC1 = replaceMember l1 (the a) (the cc);
                     tempC2 = replaceMember l2 (the b) (the a);
                     tempC3 = replaceMember l3 (the cc) (the b)
                 in case addE (addE (calculateScore_Ultimate tempC1 allData gs c1 c)
                                    (calculateScore_Ultimate tempC2 allData gs c2 c))
                              (calculateScore_Ultimate tempC3 allData gs c3 c) of
                      Inl e \<Rightarrow> Inl e
                    | Inr scoreAfter3 \<Rightarrow> Inr (Some (scoreBefore3 - scoreAfter3))))))))"

text \<open>The \<^verbatim>\<open>for (s ...)\<close> loop; the pair is \<^verbatim>\<open>(bestGain3U, best3WayU)\<close>.\<close>

fun rotationSampleLoop ::
  "student list \<Rightarrow> string list option \<Rightarrow> globalStats \<Rightarrow> ctx option \<Rightarrow> (nat \<Rightarrow> real)
    \<Rightarrow> string \<Rightarrow> string \<Rightarrow> string \<Rightarrow> nat list \<Rightarrow> nat list \<Rightarrow> nat list \<Rightarrow> real
    \<Rightarrow> nat \<Rightarrow> nat \<Rightarrow> real \<times> rotation option \<Rightarrow> error + (nat \<times> real \<times> rotation option)" where
  "rotationSampleLoop allData headers gs c rnd c1 c2 c3 l1 l2 l3 scoreBefore3 0 p acc =
     Inr (p, acc)"
| "rotationSampleLoop allData headers gs c rnd c1 c2 c3 l1 l2 l3 scoreBefore3 (Suc n) p acc =
     (let a = pick l1 (rnd p);
          b = pick l2 (rnd (Suc p));
          cc = pick l3 (rnd (Suc (Suc p)));
          p3 = Suc (Suc (Suc p))
      in case evalRotation allData headers gs c c1 c2 c3 l1 l2 l3 scoreBefore3 a b cc of
           Inl e \<Rightarrow> Inl e
         | Inr None \<Rightarrow>
             rotationSampleLoop allData headers gs c rnd c1 c2 c3 l1 l2 l3 scoreBefore3 n p3 acc
         | Inr (Some gain3) \<Rightarrow>
             rotationSampleLoop allData headers gs c rnd c1 c2 c3 l1 l2 l3 scoreBefore3 n p3
               (if gain3 > fst acc
                then (gain3, Some \<lparr> rot_a = the a, rot_b = the b, rot_c = the cc,
                                    rot_c1 = c1, rot_c2 = c2, rot_c3 = c3 \<rparr>)
                else acc))"

text \<open>\<^verbatim>\<open>byClass[k]\<close> for a sampled key \<open>k\<close>.\<close>

definition classAt :: "byClass \<Rightarrow> string option \<Rightarrow> nat list option" where
  "classAt byClass k = (case k of None \<Rightarrow> None | Some n \<Rightarrow> map_of byClass n)"

text \<open>The \<^verbatim>\<open>for (t ...)\<close> loop over sampled class triples.\<close>

fun rotationTripleLoop ::
  "student list \<Rightarrow> string list option \<Rightarrow> globalStats \<Rightarrow> ctx option \<Rightarrow> (nat \<Rightarrow> real)
    \<Rightarrow> byClass \<Rightarrow> string list
    \<Rightarrow> nat \<Rightarrow> nat \<Rightarrow> real \<times> rotation option \<Rightarrow> error + (nat \<times> real \<times> rotation option)" where
  "rotationTripleLoop allData headers gs c rnd byClass classNamesU 0 p acc = Inr (p, acc)"
| "rotationTripleLoop allData headers gs c rnd byClass classNamesU (Suc n) p acc =
     (let c1 = pick classNamesU (rnd p);
          c2 = pick classNamesU (rnd (Suc p));
          c3 = pick classNamesU (rnd (Suc (Suc p)));
          p3 = Suc (Suc (Suc p))
      in if c1 = c2 \<or> c2 = c3 \<or> c1 = c3
         then rotationTripleLoop allData headers gs c rnd byClass classNamesU n p3 acc
         else (case classAt byClass c1 of None \<Rightarrow> Inl TypeError | Some l1 \<Rightarrow>
           if length l1 = 0
           then rotationTripleLoop allData headers gs c rnd byClass classNamesU n p3 acc
           else (case classAt byClass c2 of None \<Rightarrow> Inl TypeError | Some l2 \<Rightarrow>
             if length l2 = 0
             then rotationTripleLoop allData headers gs c rnd byClass classNamesU n p3 acc
             else (case classAt byClass c3 of None \<Rightarrow> Inl TypeError | Some l3 \<Rightarrow>
               if length l3 = 0
               then rotationTripleLoop allData headers gs c rnd byClass classNamesU n p3 acc
               else
                 (case addE (addE (calculateScore_Ultimate l1 allData gs (the c1) c)
                                  (calculateScore_Ultimate l2 allData gs (the c2) c))
                            (calculateScore_Ultimate l3 allData gs (the c3) c) of
                    Inl e \<Rightarrow> Inl e
                  | Inr scoreBefore3 \<Rightarrow>
                     (case rotationSampleLoop allData headers gs c rnd (the c1) (the c2) (the c3)
                             l1 l2 l3 scoreBefore3 10 p3 acc of
                        Inl e \<Rightarrow> Inl e
                      | Inr (p', acc') \<Rightarrow>
                          rotationTripleLoop allData headers gs c rnd byClass classNamesU n p' acc'))))))"

text \<open>The three assignments that apply a rotation, one after the other.\<close>

definition applyRotation :: "byClass \<Rightarrow> rotation \<Rightarrow> error + byClass" where
  "applyRotation byClass r =
     (case map_of byClass (rot_c1 r) of None \<Rightarrow> Inl TypeError | Some l1 \<Rightarrow>
        (let byClass1 = AList.update (rot_c1 r) (replaceMember l1 (rot_a r) (rot_c r)) byClass
         in case map_of byClass1 (rot_c2 r) of None \<Rightarrow> Inl TypeError | Some l2 \<Rightarrow>
          (let byClass2 = AList.update (rot_c2 r) (replaceMember l2 (rot_b r) (rot_a r)) byClass1
           in case map_of byClass2 (rot_c3 r) of None \<Rightarrow> Inl TypeError | Some l3 \<Rightarrow>
            Inr (AList.update (rot_c3 r) (replaceMember l3 (rot_c r) (rot_b r)) byClass2))))"

text \<open>One iteration of the \<^verbatim>\<open>for (iter3 ...)\<close> loop.\<close>

definition threeWayIter ::
  "student list \<Rightarrow> string list option \<Rightarrow> globalStats \<Rightarrow> ctx option \<Rightarrow> (nat \<Rightarrow> real)
    \<Rightarrow> string list \<Rightarrow> lstate \<Rightarrow> error + (flow \<times> lstate)" where
  "threeWayIter allData headers gs c rnd classNamesU s =
     (case rotationTripleLoop allData headers gs c rnd (st_byClass s) classNamesU 15 (st_pos s)
             (0.001, None) of
        Inl e \<Rightarrow> Inl e
      | Inr (p', bestGain3U, best3WayU) \<Rightarrow>
          (case best3WayU of
             None \<Rightarrow> Inr (Break, s\<lparr> st_pos := p' \<rparr>)
           | Some r \<Rightarrow>
               (case applyRotation (st_byClass s) r of
                  Inl e \<Rightarrow> Inl e
                | Inr byClass' \<Rightarrow>
                    Inr (Continue, s\<lparr> st_byClass := byClass',
                                       st_swapsApplied := st_swapsApplied s + 1,
                                       st_swaps3Way := st_swaps3Way s + 1,
                                       st_pos := p' \<rparr>))))"

fun threeWayLoop ::
  "student list \<Rightarrow> string list option \<Rightarrow> globalStats \<Rightarrow> ctx option \<Rightarrow> (nat \<Rightarrow> real)
    \<Rightarrow> string list \<Rightarrow> nat \<Rightarrow> lstate \<Rightarrow> error + lstate" where
  "threeWayLoop allData headers gs c rnd classNamesU 0 s = Inr s"
| "threeWayLoop allData headers gs c rnd classNamesU (Suc n) s =
     (case threeWayIter allData headers gs c rnd classNamesU s of
        Inl e \<Rightarrow> Inl e
      | Inr (Break, s') \<Rightarrow> Inr s'
      | Inr (Continue, s') \<Rightarrow> threeWayLoop allData headers gs c rnd classNamesU n s')"

subsection \<open>The validator\<close>

text \<open>
  A duplicate records the class, the code, and the members of the class that carry it;
  the source stores their count and their display names.
\<close>

record duplicate =
  dup_classe :: string
  dup_code :: string
  dup_count :: nat
  dup_members :: "nat list"

record validationResult =
  val_ok :: bool
  val_message :: "string option"
  val_duplicates :: "duplicate list"

text \<open>\<^verbatim>\<open>dissoCounts\<close> of one class: for each non-empty code, the members met so far.\<close>

fun countDisso ::
  "student list \<Rightarrow> nat option \<Rightarrow> nat list \<Rightarrow> (string \<times> nat list) list
    \<Rightarrow> error + (string \<times> nat list) list" where
  "countDisso allData idxDISSO [] dissoCounts = Inr dissoCounts"
| "countDisso allData idxDISSO (idx # rest) dissoCounts =
     (case elemAt allData idx of
        None \<Rightarrow> Inl TypeError
      | Some st \<Rightarrow>
          (let disso = codeAt (row st) idxDISSO
           in if disso = [] then countDisso allData idxDISSO rest dissoCounts
              else countDisso allData idxDISSO rest
                     (AList.update disso
                        (case map_of dissoCounts disso of None \<Rightarrow> [idx] | Some m \<Rightarrow> m @ [idx])
                        dissoCounts)))"

fun validateLoop ::
  "student list \<Rightarrow> nat option \<Rightarrow> byClass \<Rightarrow> duplicate list \<Rightarrow> error + duplicate list" where
  "validateLoop allData idxDISSO [] duplicates = Inr duplicates"
| "validateLoop allData idxDISSO ((cls, indices) # rest) duplicates =
     (case countDisso allData idxDISSO indices [] of
        Inl e \<Rightarrow> Inl e
      | Inr dissoCounts \<Rightarrow>
          validateLoop allData idxDISSO rest
            (duplicates @
             map (\<lambda>(code, m). \<lparr> dup_classe = cls, dup_code = code, dup_count = length m,
                                 dup_members = m \<rparr>)
                 (filter (\<lambda>(code, m). length m > 1) dissoCounts)))"

definition validateDISSOConstraints_Ultimate ::
  "student list \<Rightarrow> byClass \<Rightarrow> string list option \<Rightarrow> error + validationResult" where
  "validateDISSOConstraints_Ultimate allData byClass headersRef =
     (case headersRef of
        None \<Rightarrow> Inl TypeError
      | Some headers \<Rightarrow>
          (let idxDISSO = indexOf headers ''DISSO''
           in if idxDISSO = None
              then Inr \<lparr> val_ok = True,
                         val_message = Some (''Colonne DISSO non trouv'' @ [CHR 0xC3, CHR 0xA9, CHR ''e'']),
                         val_duplicates = [] \<rparr>
              else case validateLoop allData idxDISSO byClass [] of
                     Inl e \<Rightarrow> Inl e
                   | Inr duplicates \<Rightarrow>
                       Inr \<lparr> val_ok = (length duplicates = 0), val_message = None,
                             val_duplicates = duplicates \<rparr>))"

subsection \<open>Saving and the entry point\<close>

text \<open>
  What the spreadsheet answers when the results are written: whether a sheet of a given
  name exists, and whether writing to it raises (the source catches it and counts it).
\<close>

record spreadsheet =
  hasSheet :: "string \<Rightarrow> bool"
  writeFails :: "string \<Rightarrow> bool"

record saveResult =
  save_ok :: bool
  successCount :: nat
  errorCount :: nat

definition saveResults_Ultimate ::
  "spreadsheet \<Rightarrow> student list \<Rightarrow> byClass \<Rightarrow> string list option \<Rightarrow> saveResult" where
  "saveResults_Ultimate ss allData byClass headersRef =
     (if headersRef = None \<or> headersRef = Some []
      then \<lparr> save_ok = False, successCount = 0, errorCount = 0 \<rparr>
      else
        let failed = (\<lambda>(className, indices).
                        \<not> hasSheet ss (className @ ''TEST'')
                        \<or> (\<exists>idx \<in> set indices. elemAt allData idx = None)
                        \<or> writeFails ss (className @ ''TEST''));
            errors = length (filter failed byClass);
            successes = length (filter (\<lambda>e. \<not> failed e) byClass)
        in \<lparr> save_ok = (errors = 0), successCount = successes, errorCount = errors \<rparr>)"

text \<open>
  The value \<^verbatim>\<open>loadAndClassifyData_Ultimate\<close> returns from the sheets: \<^verbatim>\<open>headers\<close> is
  \<^verbatim>\<open>null\<close> when no sheet had a data row.
\<close>

record dataResult =
  dr_ok :: bool
  dr_allData :: "student list"
  dr_byClass :: byClass
  dr_headers :: "string list option"

text \<open>
  How the loader fills \<^verbatim>\<open>byClass\<close>: for each student it keeps, in the order in which it
  appends them to \<^verbatim>\<open>allData\<close>, it runs
  \<^verbatim>\<open>if (!byClass[className]) byClass[className] = []; byClass[className].push(allData.length - 1)\<close>.
  \<open>groupLoop\<close> takes the class names of the kept students in that order and the index of
  the next student.
\<close>

definition pushMember :: "byClass \<Rightarrow> string \<Rightarrow> nat \<Rightarrow> byClass" where
  "pushMember byClass className idx =
     AList.update className
       ((case map_of byClass className of None \<Rightarrow> [] | Some l \<Rightarrow> l) @ [idx]) byClass"

fun groupLoop :: "string list \<Rightarrow> nat \<Rightarrow> byClass \<Rightarrow> byClass" where
  "groupLoop [] n byClass = byClass"
| "groupLoop (className # rest) n byClass = groupLoop rest (Suc n) (pushMember byClass className n)"

datatype runResult =
    Failure string
  | Success (swapsApplied: nat) (swaps3Way: nat) (saveResultOf: saveResult)
            (validation: validationResult)

definition ok :: "runResult \<Rightarrow> bool" where
  "ok r = (case r of Failure m \<Rightarrow> False | Success n k sv v \<Rightarrow> True)"

text \<open>Steps 3 and 3b of \<^verbatim>\<open>Phase4_Ultimate_Run\<close>: the two loops, from the loaded data.\<close>

definition optimizeLoops ::
  "student list \<Rightarrow> byClass \<Rightarrow> string list option \<Rightarrow> globalStats \<Rightarrow> ctx option \<Rightarrow> (nat \<Rightarrow> real)
    \<Rightarrow> error + lstate" where
  "optimizeLoops allData byClass headers gs c rnd =
     (case twoWayLoop allData headers gs c rnd (maxSwaps ULTIMATE_CONFIG)
             \<lparr> st_byClass = byClass, st_swapsApplied = 0, st_stagnationCount = 0,
               st_swaps3Way = 0, st_pos = 0 \<rparr> of
        Inl e \<Rightarrow> Inl e
      | Inr s \<Rightarrow> threeWayLoop allData headers gs c rnd (map fst (st_byClass s)) 200 s)"

definition Phase4_Ultimate_Run ::
  "ctx \<Rightarrow> spreadsheet \<Rightarrow> (nat \<Rightarrow> real) \<Rightarrow> dataResult \<Rightarrow> error + runResult" where
  "Phase4_Ultimate_Run c ss rnd dataResult =
     (if \<not> dr_ok dataResult
      then Inr (Failure (''Erreur chargement donn'' @ [CHR 0xC3, CHR 0xA9, CHR ''e'', CHR ''s'']))
      else
        let allData = dr_allData dataResult;
            headers = dr_headers dataResult;
            globalStats = calculateGlobalStats_Ultimate allData
        in case optimizeLoops allData (dr_byClass dataResult) headers globalStats (Some c) rnd of
             Inl e \<Rightarrow> Inl e
           | Inr s \<Rightarrow>
               (let saveResult = saveResults_Ultimate ss allData (st_byClass s) headers
                in case validateDISSOConstraints_Ultimate allData (st_byClass s) headers of
                     Inl e \<Rightarrow> Inl e
                   | Inr validationResult \<Rightarrow>
                       Inr (Success (st_swapsApplied s) (st_swaps3Way s) saveResult
                              validationResult)))"

section \<open>The cost function as the specification words it\<close>

text \<open>
  Section 4.2 of the specification, written from its words: \<open>n\<close> members, \<open>h\<close> heads,
  \<open>l\<close> low-tier students, the class and cohort ratios and means, and the default weights
  and targets. The class quantities are those of the data model: counts over the members,
  and means in which a missing (zero) score falls back to 2.5.
\<close>

definition headCount :: "student list \<Rightarrow> nat" where
  "headCount ss = length (filter isHead ss)"

definition lowTierCount :: "student list \<Rightarrow> nat" where
  "lowTierCount ss = length (filter isNiv1 ss)"

definition ratioFOf :: "student list \<Rightarrow> real" where
  "ratioFOf ss = real (length (filter (\<lambda>s. sexe s = ''F'') ss)) / real (length ss)"

definition meanOf :: "(student \<Rightarrow> real) \<Rightarrow> student list \<Rightarrow> real" where
  "meanOf f ss = (\<Sum>s\<leftarrow>ss. orDefault (f s)) / real (length ss)"

definition specOtherTerms ::
  "nat \<Rightarrow> nat \<Rightarrow> real \<Rightarrow> real \<Rightarrow> real \<Rightarrow> real \<Rightarrow> real \<Rightarrow> real \<Rightarrow> real \<Rightarrow> real \<Rightarrow> real" where
  "specOtherTerms h l ratioF_class ratioF_cohort avgCOM_class avgCOM_cohort
     avgTRA_class avgTRA_cohort avgPART_class avgPART_cohort =
       (if h < 2 then (2 - real h) ^ 2 * 500 else 0)
     + (if h > 5 then (real h - 5) * 200 else 0)
     + (if l > 4 then (real l - 4) ^ 3 * 100 else 0)
     + \<bar>ratioF_class - ratioF_cohort\<bar> * 1000 * 4.0
     + \<bar>avgCOM_class - avgCOM_cohort\<bar> * 100 * 5.0
     + \<bar>avgTRA_class - avgTRA_cohort\<bar> * 100 * 5.0
     + \<bar>avgPART_class - avgPART_cohort\<bar> * 50 * 5.0"

definition specScore ::
  "nat \<Rightarrow> nat \<Rightarrow> nat \<Rightarrow> nat \<Rightarrow> real \<Rightarrow> real \<Rightarrow> real \<Rightarrow> real \<Rightarrow> real \<Rightarrow> real \<Rightarrow> real \<Rightarrow> real
    \<Rightarrow> real" where
  "specScore n target h l ratioF_class ratioF_cohort avgCOM_class avgCOM_cohort
     avgTRA_class avgTRA_cohort avgPART_class avgPART_cohort =
     (if n = 0 then 10000
      else (real n - real target) ^ 2 * 800
         + specOtherTerms h l ratioF_class ratioF_cohort avgCOM_class avgCOM_cohort
             avgTRA_class avgTRA_cohort avgPART_class avgPART_cohort)"

text \<open>The class name has a positive entry in the target table of the context.\<close>

definition positiveTarget :: "string \<Rightarrow> ctx option \<Rightarrow> bool" where
  "positiveTarget className c =
     (case c of None \<Rightarrow> False
      | Some x \<Rightarrow> (case targets x of None \<Rightarrow> False
          | Some tg \<Rightarrow> (case tg className of None \<Rightarrow> False | Some t \<Rightarrow> 0 < t)))"

text \<open>The score of a membership list as a number (0 where the source raises).\<close>

definition scoreValue :: "student list \<Rightarrow> globalStats \<Rightarrow> ctx option \<Rightarrow> string \<Rightarrow> nat list \<Rightarrow> real" where
  "scoreValue allData gs c cls l =
     (case calculateScore_Ultimate l allData gs cls c of Inl e \<Rightarrow> 0 | Inr v \<Rightarrow> v)"

section \<open>Notions used to state the properties\<close>

text \<open>
  The header row has a DISSO column; a student index is movable (defined and not fixed);
  the candidate that the two-way search keeps, and the rotation that the three-way search
  keeps, with everything the search has established about them; the relation between the
  assignment before and after an applied move; the sum of the class scores; membership
  of a student in a class.
\<close>

definition hasDISSO :: "string list option \<Rightarrow> bool" where
  "hasDISSO headersRef =
     (case headersRef of None \<Rightarrow> False | Some headers \<Rightarrow> indexOf headers ''DISSO'' \<noteq> None)"

definition movable :: "student list \<Rightarrow> nat \<Rightarrow> bool" where
  "movable allData i = (case elemAt allData i of None \<Rightarrow> False | Some st \<Rightarrow> \<not> isFixed st)"

definition swapCandidate ::
  "student list \<Rightarrow> string list option \<Rightarrow> globalStats \<Rightarrow> ctx option \<Rightarrow> string \<Rightarrow> string
    \<Rightarrow> nat list \<Rightarrow> nat list \<Rightarrow> real \<Rightarrow> swap \<Rightarrow> bool" where
  "swapCandidate allData headers gs c cls1Name cls2Name idxList1 idxList2 scoreBefore sw =
     (swap_cls1 sw = cls1Name \<and> swap_cls2 sw = cls2Name
      \<and> swap_idx1 sw \<in> set idxList1 \<and> swap_idx2 sw \<in> set idxList2
      \<and> movable allData (swap_idx1 sw) \<and> movable allData (swap_idx2 sw)
      \<and> canSwapStudents_Ultimate (swap_idx1 sw) (swap_idx2 sw) cls1Name cls2Name idxList1
           idxList2 allData headers c = Inr True
      \<and> addE (calculateScore_Ultimate (replaceMember idxList1 (swap_idx1 sw) (swap_idx2 sw))
                 allData gs cls1Name c)
              (calculateScore_Ultimate (replaceMember idxList2 (swap_idx2 sw) (swap_idx1 sw))
                 allData gs cls2Name c) = Inr (scoreBefore - swap_gain sw)
      \<and> swap_gain sw > 0)"

definition accOK ::
  "student list \<Rightarrow> string list option \<Rightarrow> globalStats \<Rightarrow> ctx option \<Rightarrow> string \<Rightarrow> string
    \<Rightarrow> nat list \<Rightarrow> nat list \<Rightarrow> real \<Rightarrow> real \<times> swap option \<Rightarrow> bool" where
  "accOK allData headers gs c cls1Name cls2Name idxList1 idxList2 scoreBefore acc =
     (0 \<le> fst acc \<and>
      (case snd acc of None \<Rightarrow> True
       | Some sw \<Rightarrow> swapCandidate allData headers gs c cls1Name cls2Name idxList1 idxList2
                     scoreBefore sw))"

definition twoWayMove ::
  "student list \<Rightarrow> string list option \<Rightarrow> globalStats \<Rightarrow> ctx option \<Rightarrow> byClass \<Rightarrow> byClass \<Rightarrow> bool" where
  "twoWayMove allData headers gs c byClass byClass' =
     (\<exists>cls1 cls2 l1 l2 before sw.
        cls1 \<noteq> cls2 \<and> map_of byClass cls1 = Some l1 \<and> map_of byClass cls2 = Some l2
        \<and> addE (calculateScore_Ultimate l1 allData gs cls1 c)
                (calculateScore_Ultimate l2 allData gs cls2 c) = Inr before
        \<and> swapCandidate allData headers gs c cls1 cls2 l1 l2 before sw
        \<and> swap_gain sw > 0.0001
        \<and> byClass' = AList.update cls2 (replaceMember l2 (swap_idx2 sw) (swap_idx1 sw))
                        (AList.update cls1 (replaceMember l1 (swap_idx1 sw) (swap_idx2 sw)) byClass))"

definition rotationOK ::
  "student list \<Rightarrow> string list option \<Rightarrow> globalStats \<Rightarrow> ctx option \<Rightarrow> byClass \<Rightarrow> rotation
    \<Rightarrow> nat list \<Rightarrow> nat list \<Rightarrow> nat list \<Rightarrow> bool" where
  "rotationOK allData headers gs c byClass r l1 l2 l3 =
     (rot_c1 r \<noteq> rot_c2 r \<and> rot_c2 r \<noteq> rot_c3 r \<and> rot_c1 r \<noteq> rot_c3 r
      \<and> map_of byClass (rot_c1 r) = Some l1 \<and> map_of byClass (rot_c2 r) = Some l2
      \<and> map_of byClass (rot_c3 r) = Some l3
      \<and> rot_a r \<in> set l1 \<and> rot_b r \<in> set l2 \<and> rot_c r \<in> set l3
      \<and> movable allData (rot_a r) \<and> movable allData (rot_b r) \<and> movable allData (rot_c r)
      \<and> canSwapStudents_Ultimate (rot_a r) (rot_b r) (rot_c1 r) (rot_c2 r) l1 l2 allData headers c
          = Inr True
      \<and> canSwapStudents_Ultimate (rot_b r) (rot_c r) (rot_c2 r) (rot_c3 r) l2 l3 allData headers c
          = Inr True
      \<and> (\<exists>before after.
            addE (addE (calculateScore_Ultimate l1 allData gs (rot_c1 r) c)
                       (calculateScore_Ultimate l2 allData gs (rot_c2 r) c))
                 (calculateScore_Ultimate l3 allData gs (rot_c3 r) c) = Inr before
          \<and> addE (addE (calculateScore_Ultimate (replaceMember l1 (rot_a r) (rot_c r)) allData gs
                           (rot_c1 r) c)
                         (calculateScore_Ultimate (replaceMember l2 (rot_b r) (rot_a r)) allData gs
                           (rot_c2 r) c))
                   (calculateScore_Ultimate (replaceMember l3 (rot_c r) (rot_b r)) allData gs
                      (rot_c3 r) c) = Inr after
          \<and> before - after > 0.001))"

definition accOK3 ::
  "student list \<Rightarrow> string list option \<Rightarrow> globalStats \<Rightarrow> ctx option \<Rightarrow> byClass
    \<Rightarrow> real \<times> rotation option \<Rightarrow> bool" where
  "accOK3 allData headers gs c byClass acc =
     (0.001 \<le> fst acc \<and>
      (case snd acc of None \<Rightarrow> True
       | Some r \<Rightarrow> \<exists>l1 l2 l3. rotationOK allData headers gs c byClass r l1 l2 l3))"

definition threeWayMove ::
  "student list \<Rightarrow> string list option \<Rightarrow> globalStats \<Rightarrow> ctx option \<Rightarrow> byClass \<Rightarrow> byClass \<Rightarrow> bool" where
  "threeWayMove allData headers gs c byClass byClass' =
     (\<exists>r l1 l2 l3.
        rotationOK allData headers gs c byClass r l1 l2 l3
        \<and> byClass' =
            AList.update (rot_c3 r) (replaceMember l3 (rot_c r) (rot_b r))
              (AList.update (rot_c2 r) (replaceMember l2 (rot_b r) (rot_a r))
                 (AList.update (rot_c1 r) (replaceMember l1 (rot_a r) (rot_c r)) byClass)))"

definition totalScore :: "student list \<Rightarrow> globalStats \<Rightarrow> ctx option \<Rightarrow> byClass \<Rightarrow> real" where
  "totalScore allData gs c byClass = (\<Sum>(cls, l)\<leftarrow>byClass. scoreValue allData gs c cls l)"

definition memberOf :: "byClass \<Rightarrow> string \<Rightarrow> nat \<Rightarrow> bool" where
  "memberOf byClass cls i = (case map_of byClass cls of None \<Rightarrow> False | Some l \<Rightarrow> i \<in> set l)"

text \<open>
  The feasibility check of a pair as the specification has it (can-swap): rule 1,
  mobility, which the code tests where it samples the students (before every call of
  \<^verbatim>\<open>canSwapStudents_Ultimate\<close>, in both searches), and the other rules, which are
  \<^verbatim>\<open>canSwapStudents_Ultimate\<close>.
\<close>

definition feasible ::
  "student list \<Rightarrow> string list option \<Rightarrow> ctx option \<Rightarrow> nat \<Rightarrow> nat \<Rightarrow> string \<Rightarrow> string
    \<Rightarrow> nat list \<Rightarrow> nat list \<Rightarrow> bool" where
  "feasible allData headers c a b clsA clsB lA lB =
     (movable allData a \<and> movable allData b
      \<and> canSwapStudents_Ultimate a b clsA clsB lA lB allData headers c = Inr True)"

text \<open>
  The antinomy code of a student (empty when there is none); a membership list in which
  no two students share a non-empty code; an assignment whose classes have distinct
  names, list each student once and only valid students, and share no student; an
  assignment in which no class holds two students with the same non-empty code.
\<close>

definition dissoOf :: "student list \<Rightarrow> string list option \<Rightarrow> nat \<Rightarrow> string" where
  "dissoOf allData headersRef i =
     (case headersRef of None \<Rightarrow> []
      | Some headers \<Rightarrow>
          (case elemAt allData i of None \<Rightarrow> []
           | Some st \<Rightarrow> codeAt (row st) (indexOf headers ''DISSO'')))"

definition antinomyFree :: "student list \<Rightarrow> string list option \<Rightarrow> nat list \<Rightarrow> bool" where
  "antinomyFree allData headersRef l =
     (\<forall>i \<in> set l. \<forall>j \<in> set l. i \<noteq> j \<and> dissoOf allData headersRef i \<noteq> []
        \<longrightarrow> dissoOf allData headersRef i \<noteq> dissoOf allData headersRef j)"

definition wellFormed :: "nat \<Rightarrow> byClass \<Rightarrow> bool" where
  "wellFormed n byClass =
     (distinct (map fst byClass)
      \<and> (\<forall>k l. map_of byClass k = Some l \<longrightarrow> distinct l \<and> (\<forall>i \<in> set l. i < n))
      \<and> (\<forall>k1 l1 k2 l2. map_of byClass k1 = Some l1 \<and> map_of byClass k2 = Some l2 \<and> k1 \<noteq> k2
            \<longrightarrow> set l1 \<inter> set l2 = {}))"

definition noAntinomy :: "student list \<Rightarrow> string list option \<Rightarrow> byClass \<Rightarrow> bool" where
  "noAntinomy allData headersRef byClass =
     (\<forall>k l. map_of byClass k = Some l \<longrightarrow> antinomyFree allData headersRef l)"

text \<open>No class of the assignment is empty.\<close>

definition noEmptyClass :: "byClass \<Rightarrow> bool" where
  "noEmptyClass byClass = (\<forall>k l. map_of byClass k = Some l \<longrightarrow> l \<noteq> [])"

section \<open>Example inputs\<close>

definition plainBoy :: student where
  "plainBoy = \<lparr> row = [], sexe = ''M'', COM = 2.5, TRA = 2.5, PART = 2.5, mobilite = [],
                 isHead = False, isNiv1 = False \<rparr>"

definition cohortA :: globalStats where
  "cohortA = \<lparr> ratioF = 0, avgCOM = 2.5, avgTRA = 2.5, avgPART = 2.5 \<rparr>"

definition cohortZeroPART :: globalStats where
  "cohortZeroPART = \<lparr> ratioF = 0, avgCOM = 2.5, avgTRA = 2.5, avgPART = 0 \<rparr>"

definition ctxTarget :: "nat \<Rightarrow> ctx" where
  "ctxTarget t = \<lparr> targets = Some [''A'' \<mapsto> t], quotas = None, lv2Universelles = None \<rparr>"

definition ctxBare :: ctx where
  "ctxBare = \<lparr> targets = None, quotas = None, lv2Universelles = None \<rparr>"

definition girlFixed :: student where
  "girlFixed = \<lparr> row = [''''], sexe = ''F'', COM = 2.5, TRA = 2.5, PART = 2.5,
                  mobilite = ''FIXE'', isHead = False, isNiv1 = False \<rparr>"

definition girlFree :: student where
  "girlFree = \<lparr> row = [''''], sexe = ''F'', COM = 2.5, TRA = 2.5, PART = 2.5, mobilite = [],
                 isHead = False, isNiv1 = False \<rparr>"

definition girlD1 :: student where
  "girlD1 = \<lparr> row = [''D1''], sexe = ''F'', COM = 2.5, TRA = 2.5, PART = 2.5, mobilite = [],
               isHead = False, isNiv1 = False \<rparr>"

definition boyD1 :: student where
  "boyD1 = \<lparr> row = [''D1''], sexe = ''M'', COM = 2.5, TRA = 2.5, PART = 2.5, mobilite = [],
              isHead = False, isNiv1 = False \<rparr>"

definition headBoy :: student where
  "headBoy = \<lparr> row = [''''], sexe = ''M'', COM = 4, TRA = 4, PART = 4, mobilite = [],
                isHead = True, isNiv1 = False \<rparr>"

text \<open>
  Three classes, the only column DISSO: class A holds a fixed girl, a free girl and a girl
  with code D1; class B a boy without code; class C a boy with code D1.
\<close>

definition allDataRun :: "student list" where
  "allDataRun = [girlFixed, girlFree, girlD1, plainBoy, boyD1]"

definition byClassRun :: byClass where
  "byClassRun = [(''A'', [0, 1, 2]), (''B'', [3]), (''C'', [4])]"

definition headersRun :: "string list option" where
  "headersRun = Some [''DISSO'']"

definition cohortRun :: globalStats where
  "cohortRun = \<lparr> ratioF = 3 / 5, avgCOM = 2.5, avgTRA = 2.5, avgPART = 2.5 \<rparr>"

text \<open>
  Draws that are 0 except at the positions 701 to 703: with them the fifty iterations of
  the two-way loop each pick the first member of both classes, and the first sampled
  triple of the three-way phase is (A, B, C) with the members 1, 3 and 4.
\<close>

definition rndRun :: "nat \<Rightarrow> real" where
  "rndRun k = (if k = 701 then 0.4 else if k = 702 then 0.7 else if k = 703 then 0.4 else 0)"

text \<open>One class of two head students, whose score is 0.\<close>

definition allDataPerfect :: "student list" where
  "allDataPerfect = [headBoy, headBoy]"

definition byClassPerfect :: byClass where
  "byClassPerfect = [(''A'', [0, 1])]"

text \<open>Draws that are all one half.\<close>

definition rndHalf :: "nat \<Rightarrow> real" where
  "rndHalf k = 1 / 2"

text \<open>A header row without the DISSO column.\<close>

definition headersNoDISSO :: "string list" where
  "headersNoDISSO = [''NOM'']"

text \<open>One class with a fixed and a free girl.\<close>

definition allDataOne :: "student list" where
  "allDataOne = [girlFixed, girlFree]"

definition byClassOne :: byClass where
  "byClassOne = [(''A'', [0, 1])]"

definition stateRun :: lstate where
  "stateRun = \<lparr> st_byClass = byClassRun, st_swapsApplied = 0, st_stagnationCount = 0,
                st_swaps3Way = 0, st_pos = 0 \<rparr>"

text \<open>
  The state of the example when the two-way loop has stagnated, and the assignments after
  the rotation of the members 1, 3, 4 and after the swap of the members 3 and 1.
\<close>

definition stateStagnated :: lstate where
  "stateStagnated = \<lparr> st_byClass = byClassRun, st_swapsApplied = 0, st_stagnationCount = 50,
                      st_swaps3Way = 0, st_pos = 700 \<rparr>"

definition byClassRotated :: byClass where
  "byClassRotated = [(''A'', [0, 2, 4]), (''B'', [1]), (''C'', [3])]"

definition byClassSwapped :: byClass where
  "byClassSwapped = [(''A'', [0, 2, 3]), (''B'', [1]), (''C'', [4])]"

text \<open>A spreadsheet where every class has its sheet and every write succeeds.\<close>

definition sheetsOk :: spreadsheet where
  "sheetsOk = \<lparr> hasSheet = (\<lambda>n. True), writeFails = (\<lambda>n. False) \<rparr>"

section \<open>Properties\<close>

subsection \<open>The cost function\<close>

lemma foldl_add_sum_list: "foldl (\<lambda>acc s. acc + f s) a xs = a + (\<Sum>s\<leftarrow>xs. f s)"
  for a :: real
  by (induction xs arbitrary: a) simp_all

lemma students_valid:
  "\<forall>i \<in> set indices. i < length allData \<Longrightarrow>
     None \<notin> set (map (elemAt allData) indices)
     \<and> map the (map (elemAt allData) indices) = map ((!) allData) indices"
  by (induction indices) (auto simp: elemAt_def)

lemma calculateScore_empty [simp]: "calculateScore_Ultimate [] allData gs className c = Inr 10000"
  by (simp add: calculateScore_Ultimate_def)

lemma calculateScore_valid:
  assumes "\<forall>i \<in> set indices. i < length allData" and "indices \<noteq> []"
  shows "calculateScore_Ultimate indices allData gs className c =
     Inr (let ss = map ((!) allData) indices
          in (case targetSizeOf className c of None \<Rightarrow> 0
              | Some t \<Rightarrow> (real (length indices) - real t) ^ 2 * 800)
           + specOtherTerms (headCount ss) (lowTierCount ss) (ratioFOf ss) (ratioF gs)
               (meanOf COM ss) (avgCOM gs) (meanOf TRA ss) (avgTRA gs) (meanOf PART ss)
               (orDefault (avgPART gs)))"
proof -
  define ss where "ss = map ((!) allData) indices"
  have a: "(None \<in> set (map (elemAt allData) indices)) = False"
    and b: "map the (map (elemAt allData) indices) = ss"
    using students_valid [OF assms(1)] by (simp_all add: ss_def)
  have l: "length ss = length indices" by (simp add: ss_def)
  have n: "(length (map (elemAt allData) indices) = 0) = False" using assms(2) by simp
  show ?thesis
    unfolding calculateScore_Ultimate_def Let_def a b n ss_def [symmetric]
    by (simp add: ULTIMATE_CONFIG_def foldl_add_sum_list headCount_def lowTierCount_def
        ratioFOf_def meanOf_def specOtherTerms_def l split: option.split)
qed

lemma targetSizeOf_None: "\<not> positiveTarget className c \<Longrightarrow> targetSizeOf className c = None"
  by (simp add: positiveTarget_def targetSizeOf_def split: option.splits)

text \<open>
  C2 (as amended). For a membership list of valid student indices, a non-empty class name
  with a positive entry \<open>t\<close> in the target table, and the default configuration, the score
  is 10000 for an empty class and otherwise the sum of the specification:
  \<open>(n - t)\<^sup>2 \<cdot> 800\<close>, the two head terms, the cubic low-tier term, the gender term and the
  three academic terms, where the cohort PART mean is replaced by 2.5 when it is 0.
\<close>

theorem calculateScore_Ultimate_formula:
  assumes "className \<noteq> []" and "targets x = Some tg" and "tg className = Some t" and "0 < t"
    and "\<forall>i \<in> set indices. i < length allData"
  shows "calculateScore_Ultimate indices allData gs className (Some x) =
           Inr (let ss = map ((!) allData) indices
                in specScore (length indices) t (headCount ss) (lowTierCount ss)
                     (ratioFOf ss) (ratioF gs) (meanOf COM ss) (avgCOM gs)
                     (meanOf TRA ss) (avgTRA gs) (meanOf PART ss) (orDefault (avgPART gs)))"
proof (cases "indices = []")
  case True
  then show ?thesis by (simp add: specScore_def)
next
  case False
  have t: "targetSizeOf className (Some x) = Some t"
    using assms by (simp add: targetSizeOf_def)
  show ?thesis
    using False by (simp add: calculateScore_valid [OF assms(5) False] t specScore_def Let_def)
qed

theorem calculateScore_Ultimate_formula_witness:
  "calculateScore_Ultimate [0] [plainBoy] cohortA ''A'' (Some (ctxTarget 3)) = Inr 5200"
  using calculateScore_Ultimate_formula
    [of "''A''" "ctxTarget 3" "[''A'' \<mapsto> 3]" 3 "[0]" "[plainBoy]" cohortA]
  by (simp add: ctxTarget_def plainBoy_def cohortA_def specScore_def specOtherTerms_def
      headCount_def lowTierCount_def ratioFOf_def meanOf_def orDefault_def)

text \<open>
  The claim as first stated fails at two inputs: with the table entry 0 the headcount term
  is left out (the specification's sum would be 2800), and with a cohort PART mean of 0
  the PART term is measured against 2.5 (the specification's sum would be 5825).
\<close>

theorem calculateScore_Ultimate_formula_counterexample:
  "calculateScore_Ultimate [0] [plainBoy] cohortA ''A'' (Some (ctxTarget 0))
     \<noteq> Inr (specScore 1 0 (headCount [plainBoy]) (lowTierCount [plainBoy])
              (ratioFOf [plainBoy]) (ratioF cohortA) (meanOf COM [plainBoy]) (avgCOM cohortA)
              (meanOf TRA [plainBoy]) (avgTRA cohortA) (meanOf PART [plainBoy]) (avgPART cohortA))
   \<and> calculateScore_Ultimate [0] [plainBoy] cohortZeroPART ''A'' (Some (ctxTarget 3))
     \<noteq> Inr (specScore 1 3 (headCount [plainBoy]) (lowTierCount [plainBoy])
              (ratioFOf [plainBoy]) (ratioF cohortZeroPART) (meanOf COM [plainBoy])
              (avgCOM cohortZeroPART) (meanOf TRA [plainBoy]) (avgTRA cohortZeroPART)
              (meanOf PART [plainBoy]) (avgPART cohortZeroPART))"
  by (simp add: calculateScore_valid targetSizeOf_def ctxTarget_def plainBoy_def cohortA_def
      cohortZeroPART_def specScore_def specOtherTerms_def headCount_def lowTierCount_def
      ratioFOf_def meanOf_def orDefault_def)

text \<open>
  C10. When the class name has no positive entry in the target table of the context (or
  the context or its table is absent), the headcount term is omitted: the score is the
  one computed without any context, whatever the size of the class, and for a non-empty
  class of valid indices it is the sum of the other terms alone.
\<close>

theorem headcount_term_omitted:
  assumes "\<not> positiveTarget className c"
  shows "calculateScore_Ultimate indices allData gs className c =
           calculateScore_Ultimate indices allData gs className None
         \<and> ((\<forall>i \<in> set indices. i < length allData) \<and> indices \<noteq> [] \<longrightarrow>
              calculateScore_Ultimate indices allData gs className c =
                Inr (let ss = map ((!) allData) indices
                     in specOtherTerms (headCount ss) (lowTierCount ss) (ratioFOf ss) (ratioF gs)
                          (meanOf COM ss) (avgCOM gs) (meanOf TRA ss) (avgTRA gs)
                          (meanOf PART ss) (orDefault (avgPART gs))))"
proof -
  have t: "targetSizeOf className c = None"
    using assms by (rule targetSizeOf_None)
  have n: "targetSizeOf className None = None"
    by (simp add: targetSizeOf_def)
  have "calculateScore_Ultimate indices allData gs className c =
          calculateScore_Ultimate indices allData gs className None"
    by (simp add: calculateScore_Ultimate_def Let_def t n)
  moreover have "calculateScore_Ultimate indices allData gs className c =
                Inr (let ss = map ((!) allData) indices
                     in specOtherTerms (headCount ss) (lowTierCount ss) (ratioFOf ss) (ratioF gs)
                          (meanOf COM ss) (avgCOM gs) (meanOf TRA ss) (avgTRA gs)
                          (meanOf PART ss) (orDefault (avgPART gs)))"
    if "\<forall>i \<in> set indices. i < length allData" and "indices \<noteq> []"
    using that by (simp add: calculateScore_valid t Let_def)
  ultimately show ?thesis by blast
qed

theorem headcount_term_omitted_witness:
  "calculateScore_Ultimate [0] [plainBoy] cohortA ''A'' (Some (ctxTarget 0)) = Inr 2000
   \<and> calculateScore_Ultimate [0] [plainBoy] cohortA ''A'' None = Inr 2000"
proof -
  have h: "\<not> positiveTarget ''A'' (Some (ctxTarget 0))"
    by (simp add: positiveTarget_def ctxTarget_def)
  have v: "(\<forall>i \<in> set [0::nat]. i < length [plainBoy]) \<and> [0::nat] \<noteq> []"
    by simp
  from headcount_term_omitted [OF h, of "[0]" "[plainBoy]" cohortA] v
  have "calculateScore_Ultimate [0] [plainBoy] cohortA ''A'' (Some (ctxTarget 0)) =
          calculateScore_Ultimate [0] [plainBoy] cohortA ''A'' None"
    and "calculateScore_Ultimate [0] [plainBoy] cohortA ''A'' (Some (ctxTarget 0)) =
          Inr (let ss = map ((!) [plainBoy]) [0]
               in specOtherTerms (headCount ss) (lowTierCount ss) (ratioFOf ss) (ratioF cohortA)
                    (meanOf COM ss) (avgCOM cohortA) (meanOf TRA ss) (avgTRA cohortA)
                    (meanOf PART ss) (orDefault (avgPART cohortA)))"
    by blast+
  moreover have "(let ss = map ((!) [plainBoy]) [0]
               in specOtherTerms (headCount ss) (lowTierCount ss) (ratioFOf ss) (ratioF cohortA)
                    (meanOf COM ss) (avgCOM cohortA) (meanOf TRA ss) (avgTRA cohortA)
                    (meanOf PART ss) (orDefault (avgPART cohortA))) = 2000"
    by (simp add: plainBoy_def cohortA_def specOtherTerms_def headCount_def lowTierCount_def
        ratioFOf_def meanOf_def orDefault_def)
  ultimately show ?thesis by simp
qed

lemma calculateScore_total:
  assumes "\<forall>i \<in> set l. i < length allData"
  shows "calculateScore_Ultimate l allData gs cls c = Inr (scoreValue allData gs c cls l)"
proof (cases "l = []")
  case True
  then show ?thesis by (simp add: scoreValue_def)
next
  case False
  show ?thesis
    unfolding scoreValue_def calculateScore_valid [OF assms False] by simp
qed

lemma set_replaceMember: "set (replaceMember l out inn) = (set l - {out}) \<union> {inn}"
  by (auto simp: replaceMember_def)

lemma valid_replaceMember:
  "\<forall>i \<in> set l. i < n \<Longrightarrow> inn < n \<Longrightarrow> \<forall>i \<in> set (replaceMember l out inn). i < n"
  by (simp add: set_replaceMember)

subsection \<open>Which rotations are scored\<close>

text \<open>
  What \<^verbatim>\<open>evalRotation\<close> tests, in the order of the source: none of the three students is
  fixed, then \<^verbatim>\<open>canSwapStudents_Ultimate\<close> for \<open>(a, b)\<close> and for \<open>(b, c)\<close>; the gain is
  the score before minus the scores of the three lists after the rotation.
\<close>

lemma evalRotation_scored:
  assumes "\<forall>i \<in> set l1 \<union> set l2 \<union> set l3. i < length allData"
    and "a \<in> set l1" and "b \<in> set l2" and "cc \<in> set l3"
  shows "evalRotation allData headers gs c c1 c2 c3 l1 l2 l3 scoreBefore3 (Some a) (Some b) (Some cc)
           = Inr (Some g) \<longleftrightarrow>
         \<not> isFixed (allData ! a) \<and> \<not> isFixed (allData ! b) \<and> \<not> isFixed (allData ! cc)
         \<and> canSwapStudents_Ultimate a b c1 c2 l1 l2 allData headers c = Inr True
         \<and> canSwapStudents_Ultimate b cc c2 c3 l2 l3 allData headers c = Inr True
         \<and> g = scoreBefore3 - (scoreValue allData gs c c1 (replaceMember l1 a cc)
                              + scoreValue allData gs c c2 (replaceMember l2 b a)
                              + scoreValue allData gs c c3 (replaceMember l3 cc b))"
proof -
  have va: "a < length allData" and vb: "b < length allData" and vc: "cc < length allData"
    using assms by auto
  have s1: "calculateScore_Ultimate (replaceMember l1 a cc) allData gs c1 c
              = Inr (scoreValue allData gs c c1 (replaceMember l1 a cc))"
    using assms(1) vc by (intro calculateScore_total valid_replaceMember) auto
  have s2: "calculateScore_Ultimate (replaceMember l2 b a) allData gs c2 c
              = Inr (scoreValue allData gs c c2 (replaceMember l2 b a))"
    using assms(1) va by (intro calculateScore_total valid_replaceMember) auto
  have s3: "calculateScore_Ultimate (replaceMember l3 cc b) allData gs c3 c
              = Inr (scoreValue allData gs c c3 (replaceMember l3 cc b))"
    using assms(1) vb by (intro calculateScore_total valid_replaceMember) auto
  show ?thesis
    using va vb vc
    by (auto simp: evalRotation_def isFixedAt_def elemAt_def s1 s2 s3 addE_def Let_def
        split: sum.splits bool.splits)
qed

text \<open>
  C5. For a sampled triple \<open>a \<in> c1\<close>, \<open>b \<in> c2\<close>, \<open>c \<in> c3\<close> (valid indices), the rotation
  \<open>a \<rightarrow> c2\<close>, \<open>b \<rightarrow> c3\<close>, \<open>c \<rightarrow> c1\<close> is scored if and only if the feasibility check of
  \<open>(a, b)\<close> across \<open>(c1, c2)\<close> and the feasibility check of \<open>(b, c)\<close> across \<open>(c2, c3)\<close>
  both hold; the third leg, \<open>c\<close> entering \<open>c1\<close>, plays no part. The gain of a scored
  rotation is the score before minus the scores of the three lists after the rotation.
\<close>

theorem rotation_scored_iff:
  assumes "\<forall>i \<in> set l1 \<union> set l2 \<union> set l3. i < length allData"
    and "a \<in> set l1" and "b \<in> set l2" and "cc \<in> set l3"
  shows "((\<exists>g. evalRotation allData headers gs c c1 c2 c3 l1 l2 l3 scoreBefore3
                 (Some a) (Some b) (Some cc) = Inr (Some g))
          \<longleftrightarrow> feasible allData headers c a b c1 c2 l1 l2
               \<and> feasible allData headers c b cc c2 c3 l2 l3)
       \<and> (\<forall>g. evalRotation allData headers gs c c1 c2 c3 l1 l2 l3 scoreBefore3
                 (Some a) (Some b) (Some cc) = Inr (Some g)
              \<longrightarrow> g = scoreBefore3 - (scoreValue allData gs c c1 (replaceMember l1 a cc)
                                      + scoreValue allData gs c c2 (replaceMember l2 b a)
                                      + scoreValue allData gs c c3 (replaceMember l3 cc b)))"
proof -
  have va: "a < length allData" and vb: "b < length allData" and vc: "cc < length allData"
    using assms by auto
  have m: "movable allData a = (\<not> isFixed (allData ! a))"
    "movable allData b = (\<not> isFixed (allData ! b))"
    "movable allData cc = (\<not> isFixed (allData ! cc))"
    using va vb vc by (simp_all add: movable_def elemAt_def)
  note sc = evalRotation_scored [OF assms, of headers gs c c1 c2 c3 scoreBefore3]
  show ?thesis
  proof (intro conjI allI impI)
    show "(\<exists>g. evalRotation allData headers gs c c1 c2 c3 l1 l2 l3 scoreBefore3
                 (Some a) (Some b) (Some cc) = Inr (Some g))
          \<longleftrightarrow> feasible allData headers c a b c1 c2 l1 l2
               \<and> feasible allData headers c b cc c2 c3 l2 l3"
      unfolding sc feasible_def m by blast
  next
    fix g
    assume "evalRotation allData headers gs c c1 c2 c3 l1 l2 l3 scoreBefore3
              (Some a) (Some b) (Some cc) = Inr (Some g)"
    then show "g = scoreBefore3 - (scoreValue allData gs c c1 (replaceMember l1 a cc)
                                      + scoreValue allData gs c c2 (replaceMember l2 b a)
                                      + scoreValue allData gs c c3 (replaceMember l3 cc b))"
      unfolding sc by simp
  qed
qed

text \<open>
  At the example, the triple (1, 3, 4) passes both checks and is scored, although the
  check of the third leg, student 4 entering class A, fails.
\<close>

theorem rotation_scored_iff_witness:
  "feasible allDataRun headersRun (Some ctxBare) 1 3 ''A'' ''B'' [0, 1, 2] [3]
   \<and> feasible allDataRun headersRun (Some ctxBare) 3 4 ''B'' ''C'' [3] [4]
   \<and> evalRotation allDataRun headersRun cohortRun (Some ctxBare) ''A'' ''B'' ''C''
       [0, 1, 2] [3] [4] 12400 (Some 1) (Some 3) (Some 4) = Inr (Some (6400 / 3))
   \<and> \<not> feasible allDataRun headersRun (Some ctxBare) 4 1 ''C'' ''A'' [4] [0, 1, 2]"
proof -
  have v: "\<forall>i \<in> set [0, 1, 2] \<union> set [3] \<union> set [4]. i < length allDataRun"
    by (simp add: allDataRun_def)
  have mem: "(1::nat) \<in> set [0, 1, 2]" "(3::nat) \<in> set [3]" "(4::nat) \<in> set [4]" by simp_all
  have f1: "feasible allDataRun headersRun (Some ctxBare) 1 3 ''A'' ''B'' [0, 1, 2] [3]"
    by code_simp
  have f2: "feasible allDataRun headersRun (Some ctxBare) 3 4 ''B'' ''C'' [3] [4]"
    by code_simp
  have third: "\<not> feasible allDataRun headersRun (Some ctxBare) 4 1 ''C'' ''A'' [4] [0, 1, 2]"
    by code_simp
  have g: "12400 - (scoreValue allDataRun cohortRun (Some ctxBare) ''A'' (replaceMember [0, 1, 2] 1 4)
              + scoreValue allDataRun cohortRun (Some ctxBare) ''B'' (replaceMember [3] 3 1)
              + scoreValue allDataRun cohortRun (Some ctxBare) ''C'' (replaceMember [4] 4 3))
           = (6400 / 3 :: real)"
    by code_simp
  note t = rotation_scored_iff [OF v mem, of headersRun cohortRun "Some ctxBare" "''A''" "''B''"
      "''C''" 12400]
  from t f1 f2 obtain g' where
    e: "evalRotation allDataRun headersRun cohortRun (Some ctxBare) ''A'' ''B'' ''C''
          [0, 1, 2] [3] [4] 12400 (Some 1) (Some 3) (Some 4) = Inr (Some g')"
    by blast
  with t have "g' = 12400 - (scoreValue allDataRun cohortRun (Some ctxBare) ''A'' (replaceMember [0, 1, 2] 1 4)
              + scoreValue allDataRun cohortRun (Some ctxBare) ''B'' (replaceMember [3] 3 1)
              + scoreValue allDataRun cohortRun (Some ctxBare) ''C'' (replaceMember [4] 4 3))"
    by blast
  with g have "g' = 6400 / 3" by simp
  with e f1 f2 third show ?thesis by simp
qed

subsection \<open>An empty cohort\<close>

lemma findWorstClass_empty: "findWorstClass_Ultimate [] allData gs c = Inr None"
  by (simp add: findWorstClass_Ultimate_def)

lemma twoWayIter_no_class:
  "st_byClass s = [] \<Longrightarrow> twoWayIter allData headers gs c rnd s = Inr (Break, s)"
  by (simp add: twoWayIter_def findWorstClass_empty truthyKey_def)

lemma twoWayLoop_no_class:
  "st_byClass s = [] \<Longrightarrow> twoWayLoop allData headers gs c rnd n s = Inr s"
  by (cases n) (simp_all add: twoWayIter_no_class)

lemma rotationTripleLoop_no_class:
  "rotationTripleLoop allData headers gs c rnd byClass [] n p acc = Inr (p + 3 * n, acc)"
  by (induction n arbitrary: p) (simp_all add: pick_def)

lemma threeWayIter_no_class:
  "threeWayIter allData headers gs c rnd [] s = Inr (Break, s\<lparr> st_pos := st_pos s + 45 \<rparr>)"
  by (simp add: threeWayIter_def rotationTripleLoop_no_class)

lemma threeWayLoop_no_class:
  "0 < n \<Longrightarrow> threeWayLoop allData headers gs c rnd [] n s = Inr (s\<lparr> st_pos := st_pos s + 45 \<rparr>)"
  by (cases n) (simp_all add: threeWayIter_no_class)

lemma optimizeLoops_no_class:
  "optimizeLoops allData [] headers gs c rnd =
     Inr \<lparr> st_byClass = [], st_swapsApplied = 0, st_stagnationCount = 0, st_swaps3Way = 0,
           st_pos = 45 \<rparr>"
  by (simp add: optimizeLoops_def twoWayLoop_no_class threeWayLoop_no_class)

text \<open>
  C9 fails on the code. When no sheet has a data row the loader returns no student, no
  class and \<^verbatim>\<open>headers = null\<close>; both loops end at once, \<^verbatim>\<open>saveResults_Ultimate\<close> guards
  the missing headers, but \<^verbatim>\<open>validateDISSOConstraints_Ultimate\<close> calls
  \<^verbatim>\<open>headers.indexOf\<close> and the entry point raises instead of returning \<open>ok = true\<close>.
\<close>

theorem empty_cohort_null_headers_raises:
  "Phase4_Ultimate_Run c ss rnd
     \<lparr> dr_ok = True, dr_allData = [], dr_byClass = [], dr_headers = None \<rparr> = Inl TypeError"
  by (simp add: Phase4_Ultimate_Run_def optimizeLoops_no_class
      validateDISSOConstraints_Ultimate_def)

text \<open>With a header row (sheets whose rows all lack an id) the run returns as specified.\<close>

lemma empty_cohort_with_headers:
  "\<exists>sv v. Phase4_Ultimate_Run c ss rnd
     \<lparr> dr_ok = True, dr_allData = [], dr_byClass = [], dr_headers = Some headers \<rparr>
      = Inr (Success 0 0 sv v) \<and> val_ok v"
  by (simp add: Phase4_Ultimate_Run_def optimizeLoops_no_class
      validateDISSOConstraints_Ultimate_def Let_def)

subsection \<open>The worst class when every score is 0\<close>

text \<open>
  C7 fails on the code. The only class of the example has score 0, so all class scores
  equal 0; \<^verbatim>\<open>findWorstClass_Ultimate\<close> starts from \<^verbatim>\<open>maxScore = -1\<close> and returns that class,
  and the iteration of the driver goes on (here to the partner search) instead of
  stopping.
\<close>

theorem worst_class_of_perfect_classes:
  "calculateScore_Ultimate [0, 1] allDataPerfect (calculateGlobalStats_Ultimate allDataPerfect)
     ''A'' (Some ctxBare) = Inr 0
   \<and> findWorstClass_Ultimate byClassPerfect allDataPerfect
       (calculateGlobalStats_Ultimate allDataPerfect) (Some ctxBare) = Inr (Some ''A'')
   \<and> twoWayIter allDataPerfect headersRun (calculateGlobalStats_Ultimate allDataPerfect)
       (Some ctxBare) rndRun
       \<lparr> st_byClass = byClassPerfect, st_swapsApplied = 0, st_stagnationCount = 0,
         st_swaps3Way = 0, st_pos = 0 \<rparr>
     = Inr (Continue, \<lparr> st_byClass = byClassPerfect, st_swapsApplied = 0,
                        st_stagnationCount = 1, st_swaps3Way = 0, st_pos = 0 \<rparr>)"
  by code_simp

text \<open>
  More generally a class score is never negative, so the first class always beats the
  initial \<^verbatim>\<open>maxScore = -1\<close>: the function returns no class only when there is no class.
\<close>

lemma specOtherTerms_nonneg:
  "0 \<le> specOtherTerms h l rc rg cc cg tc tg pc pg"
proof -
  have a: "0 \<le> (if h < 2 then (2 - real h) ^ 2 * 500 else 0)" by simp
  have b: "0 \<le> (if h > 5 then (real h - 5) * 200 else 0)" by simp
  have c: "0 \<le> (if l > 4 then (real l - 4) ^ 3 * 100 else 0)" by simp
  show ?thesis
    unfolding specOtherTerms_def using a b c by (intro add_nonneg_nonneg) simp_all
qed

lemma calculateScore_Inr_valid:
  assumes "calculateScore_Ultimate indices allData gs cls c = Inr v"
  shows "\<forall>i \<in> set indices. i < length allData"
proof (rule ccontr)
  assume "\<not> (\<forall>i \<in> set indices. i < length allData)"
  then obtain i where i: "i \<in> set indices" "\<not> i < length allData" by blast
  then have n: "None \<in> set (map (elemAt allData) indices)"
    by (auto simp: elemAt_def image_iff intro!: bexI [of _ i])
  from i have ne: "length (map (elemAt allData) indices) \<noteq> 0" by auto
  have "calculateScore_Ultimate indices allData gs cls c = Inl TypeError"
    unfolding calculateScore_Ultimate_def Let_def using n ne by simp
  with assms show False by simp
qed

lemma calculateScore_nonneg:
  assumes "calculateScore_Ultimate indices allData gs cls c = Inr v"
  shows "0 \<le> v"
proof (cases "indices = []")
  case True
  with assms show ?thesis by simp
next
  case False
  note v = calculateScore_Inr_valid [OF assms]
  have "0 \<le> (case targetSizeOf cls c of None \<Rightarrow> 0
              | Some t \<Rightarrow> (real (length indices) - real t) ^ 2 * 800)"
    by (simp split: option.split)
  with assms show ?thesis
    unfolding calculateScore_valid [OF v False] Let_def
    using specOtherTerms_nonneg by (auto intro: add_nonneg_nonneg)
qed

lemma worstLoop_Some:
  assumes "worstLoop allData gs c l m w = Inr r" and "w \<noteq> None \<or> (l \<noteq> [] \<and> m < 0)"
  shows "r \<noteq> None"
  using assms
proof (induction l arbitrary: m w)
  case Nil
  then show ?case by simp
next
  case (Cons e rest)
  obtain cls indices where e: "e = (cls, indices)" by (cases e)
  obtain v where v: "calculateScore_Ultimate indices allData gs cls c = Inr v"
    using Cons.prems(1) e by (cases "calculateScore_Ultimate indices allData gs cls c") simp_all
  from calculateScore_nonneg [OF v] have nn: "0 \<le> v" .
  show ?case
  proof (cases "v > m")
    case True
    with Cons.prems(1) e v have "worstLoop allData gs c rest v (Some cls) = Inr r" by simp
    from Cons.IH [OF this] show ?thesis by simp
  next
    case False
    with nn have "\<not> m < 0" by simp
    with Cons.prems(2) have w: "w \<noteq> None" by simp
    from False Cons.prems(1) e v have "worstLoop allData gs c rest m w = Inr r" by simp
    from Cons.IH [OF this] w show ?thesis by simp
  qed
qed

lemma findWorstClass_None_iff:
  "findWorstClass_Ultimate byClass allData gs c = Inr None \<longleftrightarrow> byClass = []"
proof
  assume a: "findWorstClass_Ultimate byClass allData gs c = Inr None"
  show "byClass = []"
  proof (rule ccontr)
    assume "byClass \<noteq> []"
    with worstLoop_Some [OF a [unfolded findWorstClass_Ultimate_def]] show False by simp
  qed
next
  assume "byClass = []"
  then show "findWorstClass_Ultimate byClass allData gs c = Inr None"
    by (simp add: findWorstClass_empty)
qed

subsection \<open>Partner selection\<close>

lemma pick_Some_mem: "pick xs r = Some x \<Longrightarrow> x \<in> set xs"
  by (auto simp: pick_def Let_def split: if_splits)

lemma pick_in_range:
  assumes "0 \<le> r" and "r < 1" and "xs \<noteq> []"
  shows "\<exists>x \<in> set xs. pick xs r = Some x"
proof -
  let ?n = "length xs"
  have n: "0 < ?n" using assms(3) by simp
  have lo: "0 \<le> \<lfloor>r * real ?n\<rfloor>" using assms(1) by simp
  have "r * real ?n < real ?n" using assms(2) n by simp
  then have hi: "\<lfloor>r * real ?n\<rfloor> < int ?n" by (simp add: floor_less_iff)
  then have "nat \<lfloor>r * real ?n\<rfloor> < ?n" using lo by linarith
  then show ?thesis using lo by (simp add: pick_def Let_def)
qed

lemma partnerLoop_Cons_empty:
  "map_of byClass cls = Some [] \<Longrightarrow>
   partnerLoop allData gs byClass wT wN wR wA (cls # rest) best bp =
   partnerLoop allData gs byClass wT wN wR wA rest best bp"
  by simp

lemma partnerLoop_Cons_valid:
  assumes l: "map_of byClass cls = Some l" and ne: "l \<noteq> []"
    and v: "\<forall>i \<in> set l. i < length allData"
  shows "partnerLoop allData gs byClass wT wN wR wA (cls # rest) best bp =
     (if (case best of None \<Rightarrow> True
          | Some b \<Rightarrow> complementarity gs wT wN wR wA (map ((!) allData) l) > b)
      then partnerLoop allData gs byClass wT wN wR wA rest
             (Some (complementarity gs wT wN wR wA (map ((!) allData) l))) (Some cls)
      else partnerLoop allData gs byClass wT wN wR wA rest best bp)"
proof -
  have a: "(None \<in> set (map (elemAt allData) l)) = False"
    and b: "map the (map (elemAt allData) l) = map ((!) allData) l"
    using students_valid [OF v] by simp_all
  have n: "(length (map (elemAt allData) l) = 0) = False" using ne by simp
  show ?thesis
    unfolding partnerLoop.simps l option.case Let_def a b n if_False ..
qed

lemma partnerLoop_result:
  assumes "\<forall>k \<in> set classes. \<exists>l. map_of byClass k = Some l \<and> (\<forall>i \<in> set l. i < length allData)"
  shows "\<exists>r. partnerLoop allData gs byClass wT wN wR wA classes best bp = Inr r
             \<and> (r = bp \<or> r \<in> Some ` set classes)
             \<and> (bp \<noteq> None \<longrightarrow> r \<noteq> None)
             \<and> (best = None \<and> (\<exists>k \<in> set classes. map_of byClass k \<noteq> Some []) \<longrightarrow> r \<noteq> None)"
  using assms
proof (induction classes arbitrary: best bp)
  case Nil
  then show ?case by simp
next
  case (Cons cls rest)
  from Cons.prems obtain l where l: "map_of byClass cls = Some l"
    and v: "\<forall>i \<in> set l. i < length allData" by auto
  have rest: "\<forall>k \<in> set rest. \<exists>l. map_of byClass k = Some l \<and> (\<forall>i \<in> set l. i < length allData)"
    using Cons.prems by simp
  note IH = Cons.IH [OF rest]
  show ?case
  proof (cases "l = []")
    case True
    then have e: "partnerLoop allData gs byClass wT wN wR wA (cls # rest) best bp =
                  partnerLoop allData gs byClass wT wN wR wA rest best bp"
      using l by (simp only: partnerLoop_Cons_empty)
    from IH [of best bp] True l show ?thesis unfolding e by auto
  next
    case False
    define comp where "comp = complementarity gs wT wN wR wA (map ((!) allData) l)"
    note step = partnerLoop_Cons_valid [OF l False v, of gs wT wN wR wA rest best bp,
        folded comp_def]
    show ?thesis
    proof (cases "case best of None \<Rightarrow> True | Some b \<Rightarrow> comp > b")
      case True
      then have e: "partnerLoop allData gs byClass wT wN wR wA (cls # rest) best bp =
                    partnerLoop allData gs byClass wT wN wR wA rest (Some comp) (Some cls)"
        using step by simp
      from IH [of "Some comp" "Some cls"] show ?thesis unfolding e by auto
    next
      case F: False
      then have b: "best \<noteq> None" by (auto split: option.splits)
      from F have e: "partnerLoop allData gs byClass wT wN wR wA (cls # rest) best bp =
                    partnerLoop allData gs byClass wT wN wR wA rest best bp"
        using step by simp
      from IH [of best bp] b show ?thesis unfolding e by auto
    qed
  qed
qed

lemma findPartnerClass_valid:
  assumes others: "filter (\<lambda>k. k \<noteq> worstClass) (map fst byClass) \<noteq> []"
    and worst: "map_of byClass worstClass = Some wl" "wl \<noteq> []"
    and wv: "\<forall>i \<in> set wl. i < length allData"
  shows "\<exists>wT wN wR wA. findPartnerClass_Ultimate worstClass byClass allData gs rnd p =
     (case partnerLoop allData gs byClass wT wN wR wA
             (filter (\<lambda>k. k \<noteq> worstClass) (map fst byClass)) None None of
        Inl e \<Rightarrow> Inl e
      | Inr bestPartner \<Rightarrow>
          if rnd p < 0.2
          then Inr (pick (filter (\<lambda>k. k \<noteq> worstClass) (map fst byClass)) (rnd (Suc p)), Suc (Suc p))
          else Inr (bestPartner, Suc p))"
proof -
  have a: "(None \<in> set (map (elemAt allData) wl)) = False"
    using students_valid [OF wv] by simp
  have n: "(length (map (elemAt allData) wl) = 0) = False" using worst(2) by simp
  have o: "(length (filter (\<lambda>k. k \<noteq> worstClass) (map fst byClass)) = 0) = False"
    using others by (simp only: length_0_conv)
  show ?thesis
    unfolding findPartnerClass_Ultimate_def Let_def o worst(1) option.case a n if_False
    by blast
qed

text \<open>
  When there is a class other than the worst one, the worst class is not empty, some
  other class is not empty, every member index is valid and the draw is in \<open>[0, 1)\<close>,
  \<^verbatim>\<open>findPartnerClass_Ultimate\<close> returns a class different from the worst class.
\<close>

lemma findPartnerClass_partner:
  assumes others: "filter (\<lambda>k. k \<noteq> worstClass) (map fst byClass) \<noteq> []"
    and worst: "map_of byClass worstClass = Some wl" "wl \<noteq> []"
    and valid: "\<forall>k l. map_of byClass k = Some l \<longrightarrow> (\<forall>i \<in> set l. i < length allData)"
    and nonempty: "\<exists>k l. k \<noteq> worstClass \<and> map_of byClass k = Some l \<and> l \<noteq> []"
    and rnd: "0 \<le> rnd (Suc p)" "rnd (Suc p) < 1"
  shows "\<exists>k p'. findPartnerClass_Ultimate worstClass byClass allData gs rnd p = Inr (Some k, p')
                 \<and> k \<noteq> worstClass \<and> k \<in> set (map fst byClass)"
proof -
  define classes where "classes = filter (\<lambda>k. k \<noteq> worstClass) (map fst byClass)"
  have cl: "\<forall>k \<in> set classes. \<exists>l. map_of byClass k = Some l \<and> (\<forall>i \<in> set l. i < length allData)"
  proof
    fix k assume "k \<in> set classes"
    then have "k \<in> fst ` set byClass" by (auto simp: classes_def)
    then obtain l where "map_of byClass k = Some l"
      by (metis domD dom_map_of_conv_image_fst)
    with valid show "\<exists>l. map_of byClass k = Some l \<and> (\<forall>i \<in> set l. i < length allData)" by blast
  qed
  have ne: "\<exists>k \<in> set classes. map_of byClass k \<noteq> Some []"
  proof -
    from nonempty obtain k l where k: "k \<noteq> worstClass" "map_of byClass k = Some l" "l \<noteq> []" by blast
    then have "k \<in> fst ` set byClass" by (metis domI dom_map_of_conv_image_fst)
    with k show ?thesis by (auto simp: classes_def)
  qed
  have mem: "\<And>x. x \<in> set classes \<Longrightarrow> x \<noteq> worstClass \<and> x \<in> set (map fst byClass)"
    by (auto simp: classes_def)
  have wv: "\<forall>i \<in> set wl. i < length allData" using valid worst(1) by blast
  from findPartnerClass_valid [OF others worst wv, of gs rnd p, folded classes_def]
  obtain wT wN wR wA where f: "findPartnerClass_Ultimate worstClass byClass allData gs rnd p =
     (case partnerLoop allData gs byClass wT wN wR wA classes None None of
        Inl e \<Rightarrow> Inl e
      | Inr bestPartner \<Rightarrow>
          if rnd p < 0.2 then Inr (pick classes (rnd (Suc p)), Suc (Suc p))
          else Inr (bestPartner, Suc p))"
    by blast
  from partnerLoop_result [OF cl, of gs wT wN wR wA None None] ne
  obtain r where r: "partnerLoop allData gs byClass wT wN wR wA classes None None = Inr r"
    and r1: "r = None \<or> r \<in> Some ` set classes" and r2: "r \<noteq> None"
    by blast
  from r1 r2 obtain k where k: "r = Some k" "k \<in> set classes" by auto
  from pick_in_range [OF rnd, of classes] others
  obtain k' where k': "k' \<in> set classes" "pick classes (rnd (Suc p)) = Some k'"
    by (auto simp: classes_def)
  show ?thesis
  proof (cases "rnd p < 0.2")
    case True
    then have "findPartnerClass_Ultimate worstClass byClass allData gs rnd p
                 = Inr (Some k', Suc (Suc p))"
      using f r k' by simp
    with mem [OF k'(1)] show ?thesis by blast
  next
    case False
    then have "findPartnerClass_Ultimate worstClass byClass allData gs rnd p = Inr (Some k, Suc p)"
      using f r k by simp
    with mem [OF k(2)] show ?thesis by blast
  qed
qed

text \<open>
  C8. In a state of a run no class is empty: the loader creates a class when it adds
  its first member, and an applied move appends a student to every list it changes
  (lemmas \<open>loaded_noEmptyClass\<close> and \<open>run_noEmptyClass\<close> below). In such a state, with
  valid member indices and a draw in \<open>[0, 1)\<close>, \<^verbatim>\<open>findPartnerClass_Ultimate\<close> returns no
  partner when the worst class is the only class, and otherwise returns a class
  different from the worst class.
\<close>

theorem partner_found:
  assumes worst: "map_of byClass worstClass = Some wl"
    and nonempty: "noEmptyClass byClass"
    and valid: "\<forall>k l. map_of byClass k = Some l \<longrightarrow> (\<forall>i \<in> set l. i < length allData)"
    and rnd: "0 \<le> rnd (Suc p)" "rnd (Suc p) < 1"
  shows "if filter (\<lambda>k. k \<noteq> worstClass) (map fst byClass) = []
         then findPartnerClass_Ultimate worstClass byClass allData gs rnd p = Inr (None, p)
         else \<exists>k p'. findPartnerClass_Ultimate worstClass byClass allData gs rnd p = Inr (Some k, p')
                 \<and> k \<noteq> worstClass \<and> k \<in> set (map fst byClass)"
proof (cases "filter (\<lambda>k. k \<noteq> worstClass) (map fst byClass) = []")
  case True
  then show ?thesis by (simp add: findPartnerClass_Ultimate_def)
next
  case False
  then obtain k where k: "k \<in> set (map fst byClass)" "k \<noteq> worstClass"
    by (auto simp: filter_empty_conv)
  then obtain l where l: "map_of byClass k = Some l"
    by (metis domD dom_map_of_conv_image_fst set_map)
  with nonempty have "l \<noteq> []" by (simp add: noEmptyClass_def)
  with k l have ne: "\<exists>k l. k \<noteq> worstClass \<and> map_of byClass k = Some l \<and> l \<noteq> []" by blast
  from nonempty worst have wl: "wl \<noteq> []" by (simp add: noEmptyClass_def)
  from findPartnerClass_partner [where rnd = rnd and p = p and gs = gs,
      OF False worst wl valid ne rnd] False
  show ?thesis by simp
qed

theorem partner_found_witness:
  "map_of byClassRun ''B'' = Some [3] \<and> noEmptyClass byClassRun
   \<and> filter (\<lambda>k. k \<noteq> ''B'') (map fst byClassRun) \<noteq> []
   \<and> findPartnerClass_Ultimate ''B'' byClassRun allDataRun cohortRun rndRun 0 = Inr (Some ''A'', 2)
   \<and> ''A'' \<noteq> ''B'' \<and> ''A'' \<in> set (map fst byClassRun)"
proof -
  have others: "filter (\<lambda>k. k \<noteq> ''B'') (map fst byClassRun) \<noteq> []"
    by (simp add: byClassRun_def)
  have worst: "map_of byClassRun ''B'' = Some [3]"
    by (simp add: byClassRun_def)
  have ne: "noEmptyClass byClassRun"
    by (auto simp: noEmptyClass_def byClassRun_def split: if_splits)
  have valid: "\<forall>k l. map_of byClassRun k = Some l \<longrightarrow> (\<forall>i \<in> set l. i < length allDataRun)"
    by (auto simp: byClassRun_def allDataRun_def split: if_splits)
  have rnd: "0 \<le> rndRun (Suc 0)" "rndRun (Suc 0) < 1"
    by (simp_all add: rndRun_def)
  from partner_found [where rnd = rndRun and p = 0 and gs = cohortRun,
      OF worst ne valid rnd] others
  obtain k p' where r: "findPartnerClass_Ultimate ''B'' byClassRun allDataRun cohortRun rndRun 0
                          = Inr (Some k, p')"
    and k: "k \<noteq> ''B''" "k \<in> set (map fst byClassRun)"
    by auto
  have "findPartnerClass_Ultimate ''B'' byClassRun allDataRun cohortRun rndRun 0
          = Inr (Some ''A'', 2)"
    by code_simp
  with r k worst ne others show ?thesis by simp
qed

subsection \<open>What the two searches establish about the move they keep\<close>

lemma swapInnerLoop_inv:
  assumes "accOK allData headers gs c cls1Name cls2Name idxList1 idxList2 scoreBefore acc"
    and "i1 \<in> set idxList1" and "movable allData i1"
    and "swapInnerLoop allData headers gs c rnd cls1Name cls2Name idxList1 idxList2 scoreBefore i1
           n p acc = Inr (p', acc')"
  shows "accOK allData headers gs c cls1Name cls2Name idxList1 idxList2 scoreBefore acc'"
  using assms(1,4)
proof (induction n arbitrary: p acc)
  case 0
  then show ?case by simp
next
  case (Suc n)
  note run = Suc.prems(2)
  from run obtain i2 where i2: "pick idxList2 (rnd p) = Some i2"
    by (cases "pick idxList2 (rnd p)") simp_all
  from run i2 obtain s2 where s2: "elemAt allData i2 = Some s2"
    by (cases "elemAt allData i2") simp_all
  show ?case
  proof (cases "isFixed s2")
    case True
    with run i2 s2 Suc.IH [OF Suc.prems(1)] show ?thesis by simp
  next
    case nf: False
    show ?thesis
    proof (cases "canSwapStudents_Ultimate i1 i2 cls1Name cls2Name idxList1 idxList2 allData headers c")
      case (Inl e)
      with run i2 s2 nf show ?thesis by simp
    next
      case (Inr ok)
      show ?thesis
      proof (cases ok)
        case False
        with run i2 s2 nf Inr Suc.IH [OF Suc.prems(1)] show ?thesis by simp
      next
        case True
        let ?after = "addE (calculateScore_Ultimate (replaceMember idxList1 i1 i2) allData gs cls1Name c)
                           (calculateScore_Ultimate (replaceMember idxList2 i2 i1) allData gs cls2Name c)"
        from run i2 s2 nf Inr True obtain scoreAfter where sa: "?after = Inr scoreAfter"
          by (cases ?after) (simp_all add: Let_def)
        let ?gain = "scoreBefore - scoreAfter"
        let ?sw = "\<lparr> swap_idx1 = i1, swap_idx2 = i2, swap_cls1 = cls1Name, swap_cls2 = cls2Name,
                     swap_gain = ?gain \<rparr>"
        let ?acc = "if ?gain > fst acc then (?gain, Some ?sw) else acc"
        have next_run: "swapInnerLoop allData headers gs c rnd cls1Name cls2Name idxList1 idxList2
                          scoreBefore i1 n (Suc p) ?acc = Inr (p', acc')"
          using run i2 s2 nf Inr True sa by (simp add: Let_def)
        have "accOK allData headers gs c cls1Name cls2Name idxList1 idxList2 scoreBefore ?acc"
        proof (cases "?gain > fst acc")
          case False
          with Suc.prems(1) show ?thesis by simp
        next
          case g: True
          have "0 \<le> fst acc" using Suc.prems(1) by (simp add: accOK_def)
          with g have pos: "?gain > 0" by linarith
          have "swapCandidate allData headers gs c cls1Name cls2Name idxList1 idxList2 scoreBefore ?sw"
            using assms(2,3) pick_Some_mem [OF i2] s2 nf Inr True sa pos
            by (simp add: swapCandidate_def movable_def)
          with g pos show ?thesis by (simp add: accOK_def)
        qed
        from Suc.IH [OF this next_run] show ?thesis .
      qed
    qed
  qed
qed

lemma swapOuterLoop_inv:
  assumes "accOK allData headers gs c cls1Name cls2Name idxList1 idxList2 scoreBefore acc"
    and "swapOuterLoop allData headers gs c rnd cls1Name cls2Name idxList1 idxList2 scoreBefore
           sampleSize n p acc = Inr (p', acc')"
  shows "accOK allData headers gs c cls1Name cls2Name idxList1 idxList2 scoreBefore acc'"
  using assms
proof (induction n arbitrary: p acc)
  case 0
  then show ?case by simp
next
  case (Suc n)
  note run = Suc.prems(2)
  from run obtain i1 where i1: "pick idxList1 (rnd p) = Some i1"
    by (cases "pick idxList1 (rnd p)") simp_all
  from run i1 obtain s1 where s1: "elemAt allData i1 = Some s1"
    by (cases "elemAt allData i1") simp_all
  show ?case
  proof (cases "isFixed s1")
    case True
    with run i1 s1 Suc.IH [OF Suc.prems(1)] show ?thesis by simp
  next
    case nf: False
    let ?inner = "swapInnerLoop allData headers gs c rnd cls1Name cls2Name idxList1 idxList2
                    scoreBefore i1 sampleSize (Suc p) acc"
    from run i1 s1 nf obtain p1 acc1 where inner: "?inner = Inr (p1, acc1)"
      by (cases ?inner) auto
    have m: "movable allData i1" using s1 nf by (simp add: movable_def)
    from swapInnerLoop_inv [OF Suc.prems(1) pick_Some_mem [OF i1] m inner]
    have ok1: "accOK allData headers gs c cls1Name cls2Name idxList1 idxList2 scoreBefore acc1" .
    have "swapOuterLoop allData headers gs c rnd cls1Name cls2Name idxList1 idxList2 scoreBefore
           sampleSize n p1 acc1 = Inr (p', acc')"
      using run i1 s1 nf inner by simp
    from Suc.IH [OF ok1 this] show ?thesis .
  qed
qed

lemma findBestSwapBetween_Some:
  assumes "findBestSwapBetween_Ultimate cls1Name cls2Name allData byClass headers gs c rnd p
             = Inr (Some sw, p')"
  shows "\<exists>l1 l2 before. map_of byClass cls1Name = Some l1 \<and> map_of byClass cls2Name = Some l2
           \<and> addE (calculateScore_Ultimate l1 allData gs cls1Name c)
                  (calculateScore_Ultimate l2 allData gs cls2Name c) = Inr before
           \<and> swapCandidate allData headers gs c cls1Name cls2Name l1 l2 before sw"
proof -
  from assms obtain l1 where l1: "map_of byClass cls1Name = Some l1"
    by (cases "map_of byClass cls1Name") (simp_all add: findBestSwapBetween_Ultimate_def)
  from assms l1 obtain l2 where l2: "map_of byClass cls2Name = Some l2"
    by (cases "map_of byClass cls2Name") (simp_all add: findBestSwapBetween_Ultimate_def)
  let ?b = "addE (calculateScore_Ultimate l1 allData gs cls1Name c)
                 (calculateScore_Ultimate l2 allData gs cls2Name c)"
  from assms l1 l2 obtain before where b: "?b = Inr before"
    by (cases ?b) (simp_all add: findBestSwapBetween_Ultimate_def)
  let ?n = "min 25 (max (length l1) (length l2))"
  let ?loop = "swapOuterLoop allData headers gs c rnd cls1Name cls2Name l1 l2 before ?n ?n p (0, None)"
  from assms l1 l2 b obtain mg where loop: "?loop = Inr (p', mg, Some sw)"
    by (cases ?loop) (auto simp: findBestSwapBetween_Ultimate_def Let_def)
  have "accOK allData headers gs c cls1Name cls2Name l1 l2 before (0, None)"
    by (simp add: accOK_def)
  from swapOuterLoop_inv [OF this loop]
  have "swapCandidate allData headers gs c cls1Name cls2Name l1 l2 before sw"
    by (simp add: accOK_def)
  with l1 l2 b show ?thesis by blast
qed

lemma partnerLoop_mem:
  "partnerLoop allData gs byClass wT wN wR wA classes best bp = Inr r
     \<Longrightarrow> r = bp \<or> r \<in> Some ` set classes"
proof (induction classes arbitrary: best bp)
  case Nil
  then show ?case by simp
next
  case (Cons cls rest)
  from Cons.prems obtain l where l: "map_of byClass cls = Some l"
    by (cases "map_of byClass cls") simp_all
  show ?case
  proof (cases "length (map (elemAt allData) l) = 0")
    case True
    with Cons.prems l have "partnerLoop allData gs byClass wT wN wR wA rest best bp = Inr r"
      by simp
    from Cons.IH [OF this] show ?thesis by auto
  next
    case False
    with Cons.prems l have nn: "None \<notin> set (map (elemAt allData) l)"
      by (auto simp: Let_def split: if_splits)
    define comp where "comp = complementarity gs wT wN wR wA (map the (map (elemAt allData) l))"
    from Cons.prems l False nn
    have "partnerLoop allData gs byClass wT wN wR wA rest (Some comp) (Some cls) = Inr r
          \<or> partnerLoop allData gs byClass wT wN wR wA rest best bp = Inr r"
      unfolding partnerLoop.simps l option.case Let_def comp_def
      by (simp split: if_splits)
    then show ?thesis
    proof
      assume "partnerLoop allData gs byClass wT wN wR wA rest (Some comp) (Some cls) = Inr r"
      from Cons.IH [OF this] show ?thesis by auto
    next
      assume "partnerLoop allData gs byClass wT wN wR wA rest best bp = Inr r"
      from Cons.IH [OF this] show ?thesis by auto
    qed
  qed
qed

lemma findPartnerClass_Some:
  assumes "findPartnerClass_Ultimate worstClass byClass allData gs rnd p = Inr (Some k, p')"
  shows "k \<noteq> worstClass \<and> k \<in> set (map fst byClass)"
proof -
  define classes where "classes = filter (\<lambda>c. c \<noteq> worstClass) (map fst byClass)"
  have mem: "\<And>x. x \<in> set classes \<Longrightarrow> x \<noteq> worstClass \<and> x \<in> set (map fst byClass)"
    by (auto simp: classes_def)
  note d = findPartnerClass_Ultimate_def [of worstClass byClass allData gs rnd p,
      unfolded Let_def, folded classes_def]
  have ne: "length classes \<noteq> 0"
  proof
    assume "length classes = 0"
    then have "findPartnerClass_Ultimate worstClass byClass allData gs rnd p = Inr (None, p)"
      unfolding d by simp
    with assms show False by simp
  qed
  obtain wl where wl: "map_of byClass worstClass = Some wl"
  proof (cases "map_of byClass worstClass")
    case None
    then have "findPartnerClass_Ultimate worstClass byClass allData gs rnd p = Inl TypeError"
      unfolding d using ne by simp
    with assms show ?thesis by simp
  next
    case (Some a)
    then show ?thesis by (rule that)
  qed
  have t: "length (map (elemAt allData) wl) \<noteq> 0"
  proof
    assume "length (map (elemAt allData) wl) = 0"
    then have "findPartnerClass_Ultimate worstClass byClass allData gs rnd p = Inr (None, p)"
      unfolding d using ne wl by simp
    with assms show False by simp
  qed
  have nn: "None \<notin> set (map (elemAt allData) wl)"
  proof
    assume "None \<in> set (map (elemAt allData) wl)"
    then have "findPartnerClass_Ultimate worstClass byClass allData gs rnd p = Inl TypeError"
      unfolding d using ne wl t by simp
    with assms show False by simp
  qed
  have a: "(length classes = 0) = False" "(length (map (elemAt allData) wl) = 0) = False"
    "(None \<in> set (map (elemAt allData) wl)) = False"
    using ne t nn by simp_all
  note d' = d [unfolded a wl option.case if_False]
  obtain wT wN wR wA where d'': "findPartnerClass_Ultimate worstClass byClass allData gs rnd p =
     (case partnerLoop allData gs byClass wT wN wR wA classes None None of
        Inl e \<Rightarrow> Inl e
      | Inr bestPartner \<Rightarrow>
          if rnd p < 0.2 then Inr (pick classes (rnd (Suc p)), Suc (Suc p))
          else Inr (bestPartner, Suc p))"
    using d' by blast
  obtain r where loop: "partnerLoop allData gs byClass wT wN wR wA classes None None = Inr r"
    using assms unfolding d''
    by (cases "partnerLoop allData gs byClass wT wN wR wA classes None None") simp_all
  from partnerLoop_mem [OF loop] have r: "r = None \<or> r \<in> Some ` set classes" by simp
  have "k \<in> set classes"
  proof (cases "rnd p < 0.2")
    case True
    with assms have "pick classes (rnd (Suc p)) = Some k" unfolding d'' loop by simp
    then show ?thesis by (rule pick_Some_mem)
  next
    case False
    with assms have "r = Some k" unfolding d'' loop by simp
    with r show ?thesis by auto
  qed
  then show ?thesis by (rule mem)
qed

lemma canSwap_headers: "canSwapStudents_Ultimate i1 i2 cls1 cls2 l1 l2 allData headers c = Inr b
    \<Longrightarrow> \<exists>h. headers = Some h"
  by (cases headers) (simp_all add: canSwapStudents_Ultimate_def)

lemma applySwap_candidate:
  assumes "swapCandidate allData headers gs c cls1 cls2 l1 l2 before sw"
    and "cls1 \<noteq> cls2" and "map_of byClass cls1 = Some l1" and "map_of byClass cls2 = Some l2"
  shows "applySwap_Ultimate allData byClass sw headers =
           Inr (AList.update cls2 (replaceMember l2 (swap_idx2 sw) (swap_idx1 sw))
                 (AList.update cls1 (replaceMember l1 (swap_idx1 sw) (swap_idx2 sw)) byClass))"
proof -
  from assms(1) obtain h where h: "headers = Some h"
    unfolding swapCandidate_def using canSwap_headers by blast
  from assms(1) have e: "elemAt allData (swap_idx1 sw) \<noteq> None" "elemAt allData (swap_idx2 sw) \<noteq> None"
    by (auto simp: swapCandidate_def movable_def split: option.splits)
  from assms(1) have n: "swap_cls1 sw = cls1" "swap_cls2 sw = cls2"
    by (simp_all add: swapCandidate_def)
  show ?thesis
    using e assms(2-4)
    by (simp add: applySwap_Ultimate_def h n Let_def update_conv')
qed

lemma twoWayIter_not_applied:
  assumes w: "findWorstClass_Ultimate (st_byClass s) allData gs c = Inr w"
    and tw: "truthyKey w"
    and fp: "findPartnerClass_Ultimate (the w) (st_byClass s) allData gs rnd (st_pos s) = Inr (k, p1)"
    and tk: "truthyKey k"
    and fb: "findBestSwapBetween_Ultimate (the w) (the k) allData (st_byClass s) headers gs c rnd p1 = Inr (bs, p2)"
    and no: "bs = None \<or> \<not> swap_gain (the bs) > 0.0001"
  shows "twoWayIter allData headers gs c rnd s =
          Inr (if st_stagnationCount s + 1 \<ge> stagnationLimit ULTIMATE_CONFIG then Break else Continue,
               s\<lparr> st_stagnationCount := st_stagnationCount s + 1, st_pos := p2 \<rparr>)"
proof (cases bs)
  case None
  then show ?thesis
    using tw tk by (simp add: twoWayIter_def w fp fb)
next
  case (Some sw)
  with no have "\<not> swap_gain sw > 0.0001" by simp
  with Some show ?thesis
    using tw tk by (simp add: twoWayIter_def w fp fb)
qed

lemma twoWayIter_no_worst:
  assumes w: "findWorstClass_Ultimate (st_byClass s) allData gs c = Inr w"
    and tw: "\<not> truthyKey w"
  shows "twoWayIter allData headers gs c rnd s = Inr (Break, s)"
  using tw by (simp add: twoWayIter_def w)

lemma twoWayIter_no_partner:
  assumes w: "findWorstClass_Ultimate (st_byClass s) allData gs c = Inr w"
    and tw: "truthyKey w"
    and fp: "findPartnerClass_Ultimate (the w) (st_byClass s) allData gs rnd (st_pos s) = Inr (k, p1)"
    and tk: "\<not> truthyKey k"
  shows "twoWayIter allData headers gs c rnd s =
          Inr (if st_stagnationCount s + 1 > 10 then Break else Continue,
               s\<lparr> st_stagnationCount := st_stagnationCount s + 1, st_pos := p1 \<rparr>)"
  using tw tk by (simp add: twoWayIter_def w fp Let_def)

lemma twoWayIter_applied:
  assumes w: "findWorstClass_Ultimate (st_byClass s) allData gs c = Inr w"
    and tw: "truthyKey w"
    and fp: "findPartnerClass_Ultimate (the w) (st_byClass s) allData gs rnd (st_pos s) = Inr (k, p1)"
    and tk: "truthyKey k"
    and fb: "findBestSwapBetween_Ultimate (the w) (the k) allData (st_byClass s) headers gs c rnd p1 = Inr (Some sw, p2)"
    and g: "swap_gain sw > 0.0001"
    and ap: "applySwap_Ultimate allData (st_byClass s) sw headers = Inr bc'"
  shows "twoWayIter allData headers gs c rnd s =
          Inr (Continue, s\<lparr> st_byClass := bc', st_swapsApplied := st_swapsApplied s + 1,
                            st_stagnationCount := 0, st_pos := p2 \<rparr>)"
  using tw tk g by (simp add: twoWayIter_def w fp fb ap ULTIMATE_CONFIG_def)

lemma twoWayMoveI:
  assumes "cls1 \<noteq> cls2" and "map_of byClass cls1 = Some l1" and "map_of byClass cls2 = Some l2"
    and "addE (calculateScore_Ultimate l1 allData gs cls1 c)
              (calculateScore_Ultimate l2 allData gs cls2 c) = Inr before"
    and "swapCandidate allData headers gs c cls1 cls2 l1 l2 before sw"
    and "swap_gain sw > 0.0001"
  shows "twoWayMove allData headers gs c byClass
           (AList.update cls2 (replaceMember l2 (swap_idx2 sw) (swap_idx1 sw))
              (AList.update cls1 (replaceMember l1 (swap_idx1 sw) (swap_idx2 sw)) byClass))"
  unfolding twoWayMove_def
  apply (rule exI [of _ cls1], rule exI [of _ cls2], rule exI [of _ l1], rule exI [of _ l2],
      rule exI [of _ before], rule exI [of _ sw])
  using assms apply simp
  done

lemma twoWayIter_step:
  assumes "twoWayIter allData headers gs c rnd s = Inr (f, s')"
  shows "st_swaps3Way s' = st_swaps3Way s
         \<and> ((st_byClass s' = st_byClass s \<and> st_swapsApplied s' = st_swapsApplied s)
            \<or> (twoWayMove allData headers gs c (st_byClass s) (st_byClass s')
               \<and> st_swapsApplied s' = Suc (st_swapsApplied s)))"
proof -
  obtain w where w: "findWorstClass_Ultimate (st_byClass s) allData gs c = Inr w"
    using assms
    by (cases "findWorstClass_Ultimate (st_byClass s) allData gs c") (simp_all add: twoWayIter_def)
  show ?thesis
  proof (cases "truthyKey w")
    case False
    from twoWayIter_no_worst [OF w False, of headers rnd] assms have "s' = s" by simp
    then show ?thesis by simp
  next
    case tw: True
    let ?fp = "findPartnerClass_Ultimate (the w) (st_byClass s) allData gs rnd (st_pos s)"
    obtain k p1 where fp: "?fp = Inr (k, p1)"
      using assms tw by (cases ?fp) (auto simp: twoWayIter_def w)
    show ?thesis
    proof (cases "truthyKey k")
      case False
      from twoWayIter_no_partner [OF w tw fp False, of headers] assms
      have "s' = s\<lparr> st_stagnationCount := st_stagnationCount s + 1, st_pos := p1 \<rparr>" by simp
      then show ?thesis by simp
    next
      case tk: True
      then obtain kn where kn: "k = Some kn" by (cases k) (simp_all add: truthyKey_def)
      from findPartnerClass_Some [OF fp [unfolded kn]] have ne: "kn \<noteq> the w" by simp
      let ?fb = "findBestSwapBetween_Ultimate (the w) (the k) allData (st_byClass s) headers gs c rnd p1"
      obtain bs p2 where fb: "?fb = Inr (bs, p2)"
        using assms tw tk by (cases ?fb) (auto simp: twoWayIter_def w fp)
      show ?thesis
      proof (cases "bs = None \<or> \<not> swap_gain (the bs) > 0.0001")
        case True
        from twoWayIter_not_applied [OF w tw fp tk fb True] assms
        have "s' = s\<lparr> st_stagnationCount := st_stagnationCount s + 1, st_pos := p2 \<rparr>" by simp
        then show ?thesis by simp
      next
        case False
        then obtain sw where sw: "bs = Some sw" and g: "swap_gain sw > 0.0001" by auto
        from findBestSwapBetween_Some [OF fb [unfolded sw kn option.sel]]
        obtain l1 l2 before where l1: "map_of (st_byClass s) (the w) = Some l1"
          and l2: "map_of (st_byClass s) kn = Some l2"
          and b: "addE (calculateScore_Ultimate l1 allData gs (the w) c)
                       (calculateScore_Ultimate l2 allData gs kn c) = Inr before"
          and cand: "swapCandidate allData headers gs c (the w) kn l1 l2 before sw"
          by blast
        define bc' where "bc' = AList.update kn (replaceMember l2 (swap_idx2 sw) (swap_idx1 sw))
                 (AList.update (the w) (replaceMember l1 (swap_idx1 sw) (swap_idx2 sw)) (st_byClass s))"
        note ap = applySwap_candidate [OF cand ne [symmetric] l1 l2, folded bc'_def]
        from twoWayIter_applied [OF w tw fp tk fb [unfolded sw] g ap] assms
        have "s' = s\<lparr> st_byClass := bc', st_swapsApplied := st_swapsApplied s + 1,
                            st_stagnationCount := 0, st_pos := p2 \<rparr>" by simp
        then have s': "st_byClass s' = bc'"
          and n: "st_swapsApplied s' = Suc (st_swapsApplied s)"
          and t: "st_swaps3Way s' = st_swaps3Way s"
          by simp_all
        have "twoWayMove allData headers gs c (st_byClass s) (st_byClass s')"
          unfolding s' bc'_def by (rule twoWayMoveI [OF ne [symmetric] l1 l2 b cand g])
        with n t show ?thesis by simp
      qed
    qed
  qed
qed

lemma isFixedAt_False:
  "isFixedAt allData a = Inr False \<Longrightarrow> \<exists>i. a = Some i \<and> movable allData i"
  by (auto simp: isFixedAt_def movable_def split: option.splits)

lemma evalRotation_Some:
  assumes "evalRotation allData headers gs c c1 c2 c3 l1 l2 l3 scoreBefore3 a b cc = Inr (Some g)"
  shows "\<exists>i j k after. a = Some i \<and> b = Some j \<and> cc = Some k
           \<and> movable allData i \<and> movable allData j \<and> movable allData k
           \<and> canSwapStudents_Ultimate i j c1 c2 l1 l2 allData headers c = Inr True
           \<and> canSwapStudents_Ultimate j k c2 c3 l2 l3 allData headers c = Inr True
           \<and> addE (addE (calculateScore_Ultimate (replaceMember l1 i k) allData gs c1 c)
                         (calculateScore_Ultimate (replaceMember l2 j i) allData gs c2 c))
                   (calculateScore_Ultimate (replaceMember l3 k j) allData gs c3 c) = Inr after
           \<and> g = scoreBefore3 - after"
proof -
  note d = evalRotation_def [of allData headers gs c c1 c2 c3 l1 l2 l3 scoreBefore3 a b cc]
  have fa: "isFixedAt allData a = Inr False"
    using assms unfolding d by (auto split: sum.splits bool.splits)
  have fb: "isFixedAt allData b = Inr False"
    using assms unfolding d fa by (auto split: sum.splits bool.splits)
  have fc: "isFixedAt allData cc = Inr False"
    using assms unfolding d fa fb by (auto split: sum.splits bool.splits)
  from isFixedAt_False [OF fa] obtain i where i: "a = Some i" "movable allData i" by blast
  from isFixedAt_False [OF fb] obtain j where j: "b = Some j" "movable allData j" by blast
  from isFixedAt_False [OF fc] obtain k where k: "cc = Some k" "movable allData k" by blast
  note run = assms [unfolded i(1) j(1) k(1)]
  note fa' = fa [unfolded i(1)] and fb' = fb [unfolded j(1)] and fc' = fc [unfolded k(1)]
  note d' = evalRotation_def [of allData headers gs c c1 c2 c3 l1 l2 l3 scoreBefore3
      "Some i" "Some j" "Some k", unfolded fa' fb' fc' sum.case bool.case option.sel]
  have c1: "canSwapStudents_Ultimate i j c1 c2 l1 l2 allData headers c = Inr True"
    using run unfolding d' by (auto split: sum.splits bool.splits)
  have c2: "canSwapStudents_Ultimate j k c2 c3 l2 l3 allData headers c = Inr True"
    using run unfolding d' c1 by (auto split: sum.splits bool.splits)
  note d'' = d' [unfolded c1 c2 sum.case bool.case Let_def]
  let ?after = "addE (addE (calculateScore_Ultimate (replaceMember l1 i k) allData gs c1 c)
                         (calculateScore_Ultimate (replaceMember l2 j i) allData gs c2 c))
                   (calculateScore_Ultimate (replaceMember l3 k j) allData gs c3 c)"
  obtain after where a: "?after = Inr after" and g: "g = scoreBefore3 - after"
    using run unfolding d'' by (cases ?after) auto
  with i j k c1 c2 show ?thesis by blast
qed

lemma rotationSampleLoop_inv:
  assumes "accOK3 allData headers gs c byClass acc"
    and "c1 \<noteq> c2" "c2 \<noteq> c3" "c1 \<noteq> c3"
    and "map_of byClass c1 = Some l1" "map_of byClass c2 = Some l2" "map_of byClass c3 = Some l3"
    and "addE (addE (calculateScore_Ultimate l1 allData gs c1 c)
                    (calculateScore_Ultimate l2 allData gs c2 c))
              (calculateScore_Ultimate l3 allData gs c3 c) = Inr scoreBefore3"
    and "rotationSampleLoop allData headers gs c rnd c1 c2 c3 l1 l2 l3 scoreBefore3 n p acc
           = Inr (p', acc')"
  shows "accOK3 allData headers gs c byClass acc'"
  using assms(1,9)
proof (induction n arbitrary: p acc)
  case 0
  then show ?case by simp
next
  case (Suc n)
  let ?a = "pick l1 (rnd p)" and ?b = "pick l2 (rnd (Suc p))" and ?c = "pick l3 (rnd (Suc (Suc p)))"
  let ?ev = "evalRotation allData headers gs c c1 c2 c3 l1 l2 l3 scoreBefore3 ?a ?b ?c"
  note run = Suc.prems(2) [unfolded rotationSampleLoop.simps Let_def]
  obtain res where ev: "?ev = Inr res" using run by (cases ?ev) simp_all
  show ?case
  proof (cases res)
    case None
    with run ev Suc.IH [OF Suc.prems(1)] show ?thesis by simp
  next
    case (Some gain3)
    from evalRotation_Some [OF ev [unfolded Some]]
    obtain i j k after where ijk: "?a = Some i" "?b = Some j" "?c = Some k"
      and mv: "movable allData i" "movable allData j" "movable allData k"
      and cs: "canSwapStudents_Ultimate i j c1 c2 l1 l2 allData headers c = Inr True"
              "canSwapStudents_Ultimate j k c2 c3 l2 l3 allData headers c = Inr True"
      and af: "addE (addE (calculateScore_Ultimate (replaceMember l1 i k) allData gs c1 c)
                         (calculateScore_Ultimate (replaceMember l2 j i) allData gs c2 c))
                   (calculateScore_Ultimate (replaceMember l3 k j) allData gs c3 c) = Inr after"
      and g: "gain3 = scoreBefore3 - after"
      by blast
    let ?r = "\<lparr> rot_a = i, rot_b = j, rot_c = k, rot_c1 = c1, rot_c2 = c2, rot_c3 = c3 \<rparr>"
    let ?acc = "if gain3 > fst acc then (gain3, Some ?r) else acc"
    have next_run: "rotationSampleLoop allData headers gs c rnd c1 c2 c3 l1 l2 l3 scoreBefore3 n
                      (Suc (Suc (Suc p))) ?acc = Inr (p', acc')"
      using run ev Some ijk by (auto split: if_splits)
    have "accOK3 allData headers gs c byClass ?acc"
    proof (cases "gain3 > fst acc")
      case False
      with Suc.prems(1) show ?thesis by simp
    next
      case True
      have "0.001 \<le> fst acc" using Suc.prems(1) by (simp add: accOK3_def)
      with True have big: "scoreBefore3 - after > 0.001" using g by linarith
      have "rotationOK allData headers gs c byClass ?r l1 l2 l3"
        unfolding rotationOK_def
        using assms(2-8) pick_Some_mem [OF ijk(1)] pick_Some_mem [OF ijk(2)]
          pick_Some_mem [OF ijk(3)] mv cs af big
        by simp
      with True big g show ?thesis by (auto simp: accOK3_def)
    qed
    from Suc.IH [OF this next_run] show ?thesis .
  qed
qed

lemma classAt_Some: "classAt byClass k = Some l \<Longrightarrow> \<exists>n. k = Some n \<and> map_of byClass n = Some l"
  by (cases k) (simp_all add: classAt_def)

lemma rotationTripleLoop_inv:
  assumes "accOK3 allData headers gs c byClass acc"
    and "rotationTripleLoop allData headers gs c rnd byClass classNamesU n p acc = Inr (p', acc')"
  shows "accOK3 allData headers gs c byClass acc'"
  using assms
proof (induction n arbitrary: p acc)
  case 0
  then show ?case by simp
next
  case (Suc n)
  let ?c1 = "pick classNamesU (rnd p)" and ?c2 = "pick classNamesU (rnd (Suc p))"
  let ?c3 = "pick classNamesU (rnd (Suc (Suc p)))"
  let ?p3 = "Suc (Suc (Suc p))"
  note run = Suc.prems(2) [unfolded rotationTripleLoop.simps Let_def]
  note IH = Suc.IH [OF Suc.prems(1)]
  show ?case
  proof (cases "?c1 = ?c2 \<or> ?c2 = ?c3 \<or> ?c1 = ?c3")
    case True
    then have "rotationTripleLoop allData headers gs c rnd byClass classNamesU n ?p3 acc = Inr (p', acc')"
      using run by simp
    then show ?thesis by (rule IH)
  next
    case dist: False
    then have d: "(?c1 = ?c2 \<or> ?c2 = ?c3 \<or> ?c1 = ?c3) = False" by simp
    note run1 = run [unfolded d if_False]
    obtain l1 where l1: "classAt byClass ?c1 = Some l1"
      using run1 by (cases "classAt byClass ?c1") simp_all
    note run2 = run1 [unfolded l1 option.case]
    show ?thesis
    proof (cases "length l1 = 0")
      case True
      then have "rotationTripleLoop allData headers gs c rnd byClass classNamesU n ?p3 acc = Inr (p', acc')"
        using run2 by simp
      then show ?thesis by (rule IH)
    next
      case n1: False
      then have e1: "(length l1 = 0) = False" by simp
      note run3 = run2 [unfolded e1 if_False]
      obtain l2 where l2: "classAt byClass ?c2 = Some l2"
        using run3 by (cases "classAt byClass ?c2") simp_all
      note run4 = run3 [unfolded l2 option.case]
      show ?thesis
      proof (cases "length l2 = 0")
        case True
        then have "rotationTripleLoop allData headers gs c rnd byClass classNamesU n ?p3 acc = Inr (p', acc')"
          using run4 by simp
        then show ?thesis by (rule IH)
      next
        case n2: False
        then have e2: "(length l2 = 0) = False" by simp
        note run5 = run4 [unfolded e2 if_False]
        obtain l3 where l3: "classAt byClass ?c3 = Some l3"
          using run5 by (cases "classAt byClass ?c3") simp_all
        note run6 = run5 [unfolded l3 option.case]
        show ?thesis
        proof (cases "length l3 = 0")
          case True
          then have "rotationTripleLoop allData headers gs c rnd byClass classNamesU n ?p3 acc = Inr (p', acc')"
            using run6 by simp
          then show ?thesis by (rule IH)
        next
          case n3: False
          then have e3: "(length l3 = 0) = False" by simp
          note run7 = run6 [unfolded e3 if_False]
          from classAt_Some [OF l1] obtain k1 where k1: "?c1 = Some k1" "map_of byClass k1 = Some l1" by blast
          from classAt_Some [OF l2] obtain k2 where k2: "?c2 = Some k2" "map_of byClass k2 = Some l2" by blast
          from classAt_Some [OF l3] obtain k3 where k3: "?c3 = Some k3" "map_of byClass k3 = Some l3" by blast
          from dist k1 k2 k3 have ne: "k1 \<noteq> k2" "k2 \<noteq> k3" "k1 \<noteq> k3" by auto
          note run8 = run7 [unfolded k1(1) k2(1) k3(1) option.sel]
          let ?sb = "addE (addE (calculateScore_Ultimate l1 allData gs k1 c)
                                (calculateScore_Ultimate l2 allData gs k2 c))
                          (calculateScore_Ultimate l3 allData gs k3 c)"
          obtain sb where sb: "?sb = Inr sb" using run8 by (cases ?sb) simp_all
          note run9 = run8 [unfolded sb sum.case]
          let ?sl = "rotationSampleLoop allData headers gs c rnd k1 k2 k3 l1 l2 l3 sb 10 ?p3 acc"
          obtain p1 acc1 where sl: "?sl = Inr (p1, acc1)" using run9 by (cases ?sl) auto
          from rotationSampleLoop_inv [OF Suc.prems(1) ne k1(2) k2(2) k3(2) sb sl]
          have ok1: "accOK3 allData headers gs c byClass acc1" .
          have "rotationTripleLoop allData headers gs c rnd byClass classNamesU n p1 acc1 = Inr (p', acc')"
            using run9 unfolding sl by simp
          from Suc.IH [OF ok1 this] show ?thesis .
        qed
      qed
    qed
  qed
qed

lemma applyRotation_OK:
  assumes "rotationOK allData headers gs c byClass r l1 l2 l3"
  shows "applyRotation byClass r =
           Inr (AList.update (rot_c3 r) (replaceMember l3 (rot_c r) (rot_b r))
                 (AList.update (rot_c2 r) (replaceMember l2 (rot_b r) (rot_a r))
                    (AList.update (rot_c1 r) (replaceMember l1 (rot_a r) (rot_c r)) byClass)))"
proof -
  from assms have ne: "rot_c1 r \<noteq> rot_c2 r" "rot_c2 r \<noteq> rot_c3 r" "rot_c1 r \<noteq> rot_c3 r"
    and l: "map_of byClass (rot_c1 r) = Some l1" "map_of byClass (rot_c2 r) = Some l2"
      "map_of byClass (rot_c3 r) = Some l3"
    by (simp_all add: rotationOK_def)
  from ne have ne': "rot_c2 r \<noteq> rot_c1 r" "rot_c3 r \<noteq> rot_c2 r" "rot_c3 r \<noteq> rot_c1 r"
    by auto
  show ?thesis
    by (simp add: applyRotation_def Let_def update_conv' l ne ne')
qed

lemma threeWayIter_step:
  assumes "threeWayIter allData headers gs c rnd classNamesU s = Inr (f, s')"
  shows "(st_byClass s' = st_byClass s \<and> st_swapsApplied s' = st_swapsApplied s
            \<and> st_swaps3Way s' = st_swaps3Way s)
         \<or> (threeWayMove allData headers gs c (st_byClass s) (st_byClass s')
             \<and> st_swapsApplied s' = Suc (st_swapsApplied s)
             \<and> st_swaps3Way s' = Suc (st_swaps3Way s))"
proof -
  let ?tl = "rotationTripleLoop allData headers gs c rnd (st_byClass s) classNamesU 15 (st_pos s)
               (0.001, None)"
  obtain p1 g best where tl: "?tl = Inr (p1, g, best)"
    using assms by (cases ?tl) (auto simp: threeWayIter_def)
  have "accOK3 allData headers gs c (st_byClass s) (0.001, None)" by (simp add: accOK3_def)
  from rotationTripleLoop_inv [OF this tl]
  have ok: "accOK3 allData headers gs c (st_byClass s) (g, best)" .
  show ?thesis
  proof (cases best)
    case None
    then have "threeWayIter allData headers gs c rnd classNamesU s = Inr (Break, s\<lparr> st_pos := p1 \<rparr>)"
      unfolding threeWayIter_def tl by simp
    with assms have "s' = s\<lparr> st_pos := p1 \<rparr>" by simp
    then show ?thesis by simp
  next
    case (Some r)
    with ok obtain l1 l2 l3 where rok: "rotationOK allData headers gs c (st_byClass s) r l1 l2 l3"
      by (auto simp: accOK3_def)
    define bc' where "bc' = AList.update (rot_c3 r) (replaceMember l3 (rot_c r) (rot_b r))
                 (AList.update (rot_c2 r) (replaceMember l2 (rot_b r) (rot_a r))
                    (AList.update (rot_c1 r) (replaceMember l1 (rot_a r) (rot_c r)) (st_byClass s)))"
    note ap = applyRotation_OK [OF rok, folded bc'_def]
    have "threeWayIter allData headers gs c rnd classNamesU s =
            Inr (Continue, s\<lparr> st_byClass := bc', st_swapsApplied := st_swapsApplied s + 1,
                              st_swaps3Way := st_swaps3Way s + 1, st_pos := p1 \<rparr>)"
      unfolding threeWayIter_def tl by (simp add: Some ap)
    with assms have "s' = s\<lparr> st_byClass := bc', st_swapsApplied := st_swapsApplied s + 1,
                              st_swaps3Way := st_swaps3Way s + 1, st_pos := p1 \<rparr>" by simp
    then have s': "st_byClass s' = bc'" and n: "st_swapsApplied s' = Suc (st_swapsApplied s)"
      and t: "st_swaps3Way s' = Suc (st_swaps3Way s)" by simp_all
    have "threeWayMove allData headers gs c (st_byClass s) (st_byClass s')"
      unfolding threeWayMove_def s' bc'_def
      by (rule exI [of _ r], rule exI [of _ l1], rule exI [of _ l2], rule exI [of _ l3])
        (simp add: rok)
    with n t show ?thesis by simp
  qed
qed

subsection \<open>Invariants of the loops\<close>

lemma twoWayLoop_invariant:
  assumes "twoWayLoop allData headers gs c rnd n s = Inr s'"
    and "P s"
    and "\<And>t f t'. P t \<Longrightarrow> twoWayIter allData headers gs c rnd t = Inr (f, t') \<Longrightarrow> P t'"
  shows "P s'"
  using assms(1,2)
proof (induction n arbitrary: s)
  case 0
  then show ?case by simp
next
  case (Suc n)
  obtain f t where it: "twoWayIter allData headers gs c rnd s = Inr (f, t)"
    using Suc.prems(1) by (cases "twoWayIter allData headers gs c rnd s") auto
  from assms(3) [OF Suc.prems(2) it] have Pt: "P t" .
  show ?case
  proof (cases f)
    case Break
    with Suc.prems(1) it have "s' = t" by simp
    with Pt show ?thesis by simp
  next
    case Continue
    with Suc.prems(1) it have "twoWayLoop allData headers gs c rnd n t = Inr s'" by simp
    from Suc.IH [OF this Pt] show ?thesis .
  qed
qed

lemma threeWayLoop_invariant:
  assumes "threeWayLoop allData headers gs c rnd classNamesU n s = Inr s'"
    and "P s"
    and "\<And>t f t'. P t \<Longrightarrow> threeWayIter allData headers gs c rnd classNamesU t = Inr (f, t') \<Longrightarrow> P t'"
  shows "P s'"
  using assms(1,2)
proof (induction n arbitrary: s)
  case 0
  then show ?case by simp
next
  case (Suc n)
  obtain f t where it: "threeWayIter allData headers gs c rnd classNamesU s = Inr (f, t)"
    using Suc.prems(1) by (cases "threeWayIter allData headers gs c rnd classNamesU s") auto
  from assms(3) [OF Suc.prems(2) it] have Pt: "P t" .
  show ?case
  proof (cases f)
    case Break
    with Suc.prems(1) it have "s' = t" by simp
    with Pt show ?thesis by simp
  next
    case Continue
    with Suc.prems(1) it have "threeWayLoop allData headers gs c rnd classNamesU n t = Inr s'" by simp
    from Suc.IH [OF this Pt] show ?thesis .
  qed
qed

lemma optimizeLoops_invariant:
  assumes "optimizeLoops allData byClass headers gs c rnd = Inr s'"
    and "P byClass"
    and "\<And>bc bc'. P bc \<Longrightarrow> twoWayMove allData headers gs c bc bc' \<Longrightarrow> P bc'"
    and "\<And>bc bc'. P bc \<Longrightarrow> threeWayMove allData headers gs c bc bc' \<Longrightarrow> P bc'"
  shows "P (st_byClass s')"
proof -
  let ?s0 = "\<lparr> st_byClass = byClass, st_swapsApplied = 0, st_stagnationCount = 0,
               st_swaps3Way = 0, st_pos = 0 \<rparr>"
  let ?two = "twoWayLoop allData headers gs c rnd (maxSwaps ULTIMATE_CONFIG) ?s0"
  obtain s1 where two: "?two = Inr s1"
    using assms(1) by (cases ?two) (simp_all add: optimizeLoops_def)
  have three: "threeWayLoop allData headers gs c rnd (map fst (st_byClass s1)) 200 s1 = Inr s'"
    using assms(1) by (simp add: optimizeLoops_def two)
  have "P (st_byClass s1)"
  proof (rule twoWayLoop_invariant [OF two, where P = "\<lambda>t. P (st_byClass t)"])
    show "P (st_byClass ?s0)" using assms(2) by simp
  next
    fix t f t'
    assume "P (st_byClass t)" and "twoWayIter allData headers gs c rnd t = Inr (f, t')"
    with twoWayIter_step [of allData headers gs c rnd t f t'] assms(3)
    show "P (st_byClass t')" by auto
  qed
  show ?thesis
  proof (rule threeWayLoop_invariant [OF three, where P = "\<lambda>t. P (st_byClass t)"])
    show "P (st_byClass s1)" by fact
  next
    fix t f t'
    assume "P (st_byClass t)"
      and "threeWayIter allData headers gs c rnd (map fst (st_byClass s1)) t = Inr (f, t')"
    with threeWayIter_step [of allData headers gs c rnd "map fst (st_byClass s1)" t f t'] assms(4)
    show "P (st_byClass t')" by auto
  qed
qed

subsection \<open>No class is empty in a run\<close>

lemma pushMember_noEmptyClass: "noEmptyClass byClass \<Longrightarrow> noEmptyClass (pushMember byClass k i)"
  by (simp add: noEmptyClass_def pushMember_def update_conv')

lemma groupLoop_noEmptyClass: "noEmptyClass byClass \<Longrightarrow> noEmptyClass (groupLoop names n byClass)"
  by (induction names arbitrary: n byClass) (simp_all add: pushMember_noEmptyClass)

lemma loaded_noEmptyClass: "noEmptyClass (groupLoop names 0 [])"
  by (rule groupLoop_noEmptyClass) (simp add: noEmptyClass_def)

lemma replaceMember_nonempty: "replaceMember l out inn \<noteq> []"
  by (simp add: replaceMember_def)

lemma twoWayMove_noEmptyClass:
  assumes "twoWayMove allData headers gs c bc bc'" and "noEmptyClass bc"
  shows "noEmptyClass bc'"
proof -
  from assms(1) obtain cls1 cls2 l1 l2 before sw where
    "swapCandidate allData headers gs c cls1 cls2 l1 l2 before sw"
    and "bc' = AList.update cls2 (replaceMember l2 (swap_idx2 sw) (swap_idx1 sw))
             (AList.update cls1 (replaceMember l1 (swap_idx1 sw) (swap_idx2 sw)) bc)"
    unfolding twoWayMove_def by blast
  with assms(2) show ?thesis
    by (simp add: noEmptyClass_def update_conv' replaceMember_nonempty)
qed

lemma threeWayMove_noEmptyClass:
  assumes "threeWayMove allData headers gs c bc bc'" and "noEmptyClass bc"
  shows "noEmptyClass bc'"
proof -
  from assms(1) obtain r l1 l2 l3 where
    "rotationOK allData headers gs c bc r l1 l2 l3"
    and "bc' = AList.update (rot_c3 r) (replaceMember l3 (rot_c r) (rot_b r))
              (AList.update (rot_c2 r) (replaceMember l2 (rot_b r) (rot_a r))
                 (AList.update (rot_c1 r) (replaceMember l1 (rot_a r) (rot_c r)) bc))"
    unfolding threeWayMove_def by blast
  with assms(2) show ?thesis
    by (simp add: noEmptyClass_def update_conv' replaceMember_nonempty)
qed

lemma run_noEmptyClass:
  assumes "optimizeLoops allData byClass headers gs c rnd = Inr s" and "noEmptyClass byClass"
  shows "noEmptyClass (st_byClass s)"
  using assms(2) twoWayMove_noEmptyClass threeWayMove_noEmptyClass
  by (rule optimizeLoops_invariant [OF assms(1), where P = noEmptyClass])

subsection \<open>The example evaluated\<close>

lemma cohortRun_eq: "calculateGlobalStats_Ultimate allDataRun = cohortRun"
  by code_simp

lemma threeWayIter_example:
  "threeWayIter allDataRun headersRun cohortRun (Some ctxBare) rndRun (map fst byClassRun)
     stateStagnated
   = Inr (Continue, \<lparr> st_byClass = byClassRotated, st_swapsApplied = 1, st_stagnationCount = 50,
                      st_swaps3Way = 1, st_pos = 775 \<rparr>)"
  by code_simp

lemma twoWayIter_example:
  "twoWayIter allDataRun headersRun cohortRun (Some ctxBare) rndHalf stateRun
   = Inr (Continue, \<lparr> st_byClass = byClassSwapped, st_swapsApplied = 1, st_stagnationCount = 0,
                      st_swaps3Way = 0, st_pos = 13 \<rparr>)"
  by code_simp

lemma twoWayLoop_example_no_DISSO:
  "twoWayLoop allDataRun (Some headersNoDISSO) cohortRun (Some ctxBare) rndHalf 2 stateRun
   = Inr \<lparr> st_byClass = byClassRun, st_swapsApplied = 0, st_stagnationCount = 2,
           st_swaps3Way = 0, st_pos = 26 \<rparr>"
  by code_simp

lemma optimizeLoops_one_class:
  "optimizeLoops allDataOne byClassOne headersRun (calculateGlobalStats_Ultimate allDataOne)
     (Some ctxBare) rndHalf
   = Inr \<lparr> st_byClass = byClassOne, st_swapsApplied = 0, st_stagnationCount = 11,
           st_swaps3Way = 0, st_pos = 45 \<rparr>"
  by code_simp

subsection \<open>Fixed students\<close>

lemma memberOf_update:
  "memberOf (AList.update k v al) cls i = (if cls = k then i \<in> set v else memberOf al cls i)"
  by (simp add: memberOf_def update_conv')

lemma twoWayMove_fixed:
  assumes "twoWayMove allData headers gs c bc bc'" and "\<not> movable allData i"
  shows "memberOf bc' cls i = memberOf bc cls i"
proof -
  from assms(1) obtain cls1 cls2 l1 l2 before sw where
    l: "map_of bc cls1 = Some l1" "map_of bc cls2 = Some l2"
    and cand: "swapCandidate allData headers gs c cls1 cls2 l1 l2 before sw"
    and bc': "bc' = AList.update cls2 (replaceMember l2 (swap_idx2 sw) (swap_idx1 sw))
                      (AList.update cls1 (replaceMember l1 (swap_idx1 sw) (swap_idx2 sw)) bc)"
    unfolding twoWayMove_def by blast
  from cand assms(2) have ne: "i \<noteq> swap_idx1 sw" "i \<noteq> swap_idx2 sw"
    by (auto simp: swapCandidate_def)
  show ?thesis
    unfolding bc' using l ne by (simp add: memberOf_update set_replaceMember) (simp add: memberOf_def)
qed

lemma threeWayMove_fixed:
  assumes "threeWayMove allData headers gs c bc bc'" and "\<not> movable allData i"
  shows "memberOf bc' cls i = memberOf bc cls i"
proof -
  from assms(1) obtain r l1 l2 l3 where ok: "rotationOK allData headers gs c bc r l1 l2 l3"
    and bc': "bc' = AList.update (rot_c3 r) (replaceMember l3 (rot_c r) (rot_b r))
              (AList.update (rot_c2 r) (replaceMember l2 (rot_b r) (rot_a r))
                 (AList.update (rot_c1 r) (replaceMember l1 (rot_a r) (rot_c r)) bc))"
    unfolding threeWayMove_def by blast
  from ok have l: "map_of bc (rot_c1 r) = Some l1" "map_of bc (rot_c2 r) = Some l2"
    "map_of bc (rot_c3 r) = Some l3"
    by (simp_all add: rotationOK_def)
  from ok assms(2) have ne: "i \<noteq> rot_a r" "i \<noteq> rot_b r" "i \<noteq> rot_c r"
    by (auto simp: rotationOK_def)
  show ?thesis
    unfolding bc' using l ne by (simp add: memberOf_update set_replaceMember) (simp add: memberOf_def)
qed

text \<open>
  C6. No fixed student changes class: for a student whose mobility string marks them
  fixed, membership in every class is the same after the two loops of a run as before,
  and the same after any single two-way or three-way iteration.
\<close>

theorem fixed_students_stay:
  assumes "i < length allData" and "isFixed (allData ! i)"
  shows "(optimizeLoops allData byClass headers gs c rnd = Inr sF \<longrightarrow>
            memberOf (st_byClass sF) cls i = memberOf byClass cls i)
       \<and> (twoWayIter allData headers gs c rnd s = Inr (f, s') \<longrightarrow>
            memberOf (st_byClass s') cls i = memberOf (st_byClass s) cls i)
       \<and> (threeWayIter allData headers gs c rnd names s = Inr (f3, s3) \<longrightarrow>
            memberOf (st_byClass s3) cls i = memberOf (st_byClass s) cls i)"
proof (intro conjI impI)
  have nm: "\<not> movable allData i" using assms by (simp add: movable_def elemAt_def)
  {
    assume run: "optimizeLoops allData byClass headers gs c rnd = Inr sF"
    show "memberOf (st_byClass sF) cls i = memberOf byClass cls i"
    proof (rule optimizeLoops_invariant [OF run,
          where P = "\<lambda>bc. memberOf bc cls i = memberOf byClass cls i"])
      show "memberOf byClass cls i = memberOf byClass cls i" ..
    next
      fix bc bc'
      assume "memberOf bc cls i = memberOf byClass cls i" "twoWayMove allData headers gs c bc bc'"
      with twoWayMove_fixed [OF _ nm] show "memberOf bc' cls i = memberOf byClass cls i" by simp
    next
      fix bc bc'
      assume "memberOf bc cls i = memberOf byClass cls i" "threeWayMove allData headers gs c bc bc'"
      with threeWayMove_fixed [OF _ nm] show "memberOf bc' cls i = memberOf byClass cls i" by simp
    qed
  next
    assume "twoWayIter allData headers gs c rnd s = Inr (f, s')"
    from twoWayIter_step [OF this] twoWayMove_fixed [OF _ nm, of headers gs c "st_byClass s"
        "st_byClass s'" cls]
    show "memberOf (st_byClass s') cls i = memberOf (st_byClass s) cls i" by auto
  next
    assume "threeWayIter allData headers gs c rnd names s = Inr (f3, s3)"
    from threeWayIter_step [OF this] threeWayMove_fixed [OF _ nm, of headers gs c "st_byClass s"
        "st_byClass s3" cls]
    show "memberOf (st_byClass s3) cls i = memberOf (st_byClass s) cls i" by auto
  }
qed

text \<open>
  Student 0 of the example is fixed and stays in class A through the applied swap, the
  applied rotation, and the run on the one-class cohort.
\<close>

theorem fixed_students_stay_witness:
  "memberOf byClassSwapped ''A'' 0 = memberOf byClassRun ''A'' 0
   \<and> memberOf byClassRotated ''A'' 0 = memberOf byClassRun ''A'' 0
   \<and> memberOf byClassOne ''A'' 0"
proof -
  have i: "0 < length allDataRun" "isFixed (allDataRun ! 0)" by code_simp+
  have j: "0 < length allDataOne" "isFixed (allDataOne ! 0)" by code_simp+
  from fixed_students_stay [OF i, of _ headersRun cohortRun "Some ctxBare" rndHalf _ "''A''"
      stateRun Continue "\<lparr> st_byClass = byClassSwapped, st_swapsApplied = 1,
        st_stagnationCount = 0, st_swaps3Way = 0, st_pos = 13 \<rparr>"] twoWayIter_example
  have a: "memberOf byClassSwapped ''A'' 0 = memberOf byClassRun ''A'' 0"
    by (simp add: stateRun_def)
  from fixed_students_stay [OF i, of _ headersRun cohortRun "Some ctxBare" rndRun _ "''A''"
      stateStagnated _ _ "map fst byClassRun" Continue
      "\<lparr> st_byClass = byClassRotated, st_swapsApplied = 1, st_stagnationCount = 50,
        st_swaps3Way = 1, st_pos = 775 \<rparr>"] threeWayIter_example
  have b: "memberOf byClassRotated ''A'' 0 = memberOf byClassRun ''A'' 0"
    by (simp add: stateStagnated_def)
  from fixed_students_stay [OF j, of byClassOne headersRun
      "calculateGlobalStats_Ultimate allDataOne" "Some ctxBare" rndHalf
      "\<lparr> st_byClass = byClassOne, st_swapsApplied = 0, st_stagnationCount = 11,
        st_swaps3Way = 0, st_pos = 45 \<rparr>" "''A''"] optimizeLoops_one_class
  have "memberOf byClassOne ''A'' 0 = memberOf byClassOne ''A'' 0" by simp
  moreover have "memberOf byClassOne ''A'' 0" by code_simp
  ultimately show ?thesis using a b by simp
qed

subsection \<open>A header row without DISSO\<close>

lemma canSwap_no_DISSO:
  assumes "indexOf headers ''DISSO'' = None"
  shows "canSwapStudents_Ultimate i1 i2 cls1 cls2 l1 l2 allData (Some headers) c \<noteq> Inr True"
  using assms
  by (simp add: canSwapStudents_Ultimate_def Let_def split: sum.split bool.split)

lemma assoPeers_valid:
  "\<forall>i \<in> set l. i < length allData \<Longrightarrow> \<exists>b. assoPeers allData idxASSO l self asso = Inr b"
  by (auto simp: assoPeers_def elemAt_def)

lemma canSwap_no_DISSO_valid:
  assumes "indexOf headers ''DISSO'' = None"
    and "i1 < length allData" and "i2 < length allData"
    and "\<forall>i \<in> set l1 \<union> set l2. i < length allData"
  shows "canSwapStudents_Ultimate i1 i2 cls1 cls2 l1 l2 allData (Some headers) c = Inr False"
proof -
  from assms(4) have v1: "\<forall>i \<in> set l1. i < length allData" and v2: "\<forall>i \<in> set l2. i < length allData"
    by auto
  have p1: "assoPeers allData idxASSO l1 i1 asso \<noteq> Inl e" for idxASSO asso e
    using assoPeers_valid [OF v1, of idxASSO i1 asso] by auto
  have p2: "assoPeers allData idxASSO l2 i2 asso \<noteq> Inl e" for idxASSO asso e
    using assoPeers_valid [OF v2, of idxASSO i2 asso] by auto
  show ?thesis
    using assms(1-3) p1 p2
    by (simp add: canSwapStudents_Ultimate_def Let_def elemAt_def split: sum.split bool.split)
qed

lemma canSwap_True_hasDISSO:
  "canSwapStudents_Ultimate i1 i2 cls1 cls2 l1 l2 allData headers c = Inr True \<Longrightarrow> hasDISSO headers"
proof (cases headers)
  case None
  assume "canSwapStudents_Ultimate i1 i2 cls1 cls2 l1 l2 allData headers c = Inr True"
  with None show ?thesis by (simp add: canSwapStudents_Ultimate_def)
next
  case (Some h)
  assume "canSwapStudents_Ultimate i1 i2 cls1 cls2 l1 l2 allData headers c = Inr True"
  with Some canSwap_no_DISSO [of h i1 i2 cls1 cls2 l1 l2 allData c] show ?thesis
    by (auto simp: hasDISSO_def)
qed

lemma twoWayMove_hasDISSO: "twoWayMove allData headers gs c bc bc' \<Longrightarrow> hasDISSO headers"
  unfolding twoWayMove_def swapCandidate_def using canSwap_True_hasDISSO by blast

lemma threeWayMove_hasDISSO: "threeWayMove allData headers gs c bc bc' \<Longrightarrow> hasDISSO headers"
  unfolding threeWayMove_def rotationOK_def using canSwap_True_hasDISSO by blast

lemma twoWayLoop_no_DISSO:
  assumes "\<not> hasDISSO headers" and "twoWayLoop allData headers gs c rnd n s = Inr s'"
  shows "st_swapsApplied s' = st_swapsApplied s \<and> st_byClass s' = st_byClass s
         \<and> st_swaps3Way s' = st_swaps3Way s"
proof (rule twoWayLoop_invariant [OF assms(2),
      where P = "\<lambda>t. st_swapsApplied t = st_swapsApplied s \<and> st_byClass t = st_byClass s
                     \<and> st_swaps3Way t = st_swaps3Way s"])
  show "st_swapsApplied s = st_swapsApplied s \<and> st_byClass s = st_byClass s
        \<and> st_swaps3Way s = st_swaps3Way s" by simp
next
  fix t f t'
  assume "st_swapsApplied t = st_swapsApplied s \<and> st_byClass t = st_byClass s
          \<and> st_swaps3Way t = st_swaps3Way s"
    and "twoWayIter allData headers gs c rnd t = Inr (f, t')"
  with twoWayIter_step [of allData headers gs c rnd t f t'] twoWayMove_hasDISSO assms(1)
  show "st_swapsApplied t' = st_swapsApplied s \<and> st_byClass t' = st_byClass s
        \<and> st_swaps3Way t' = st_swaps3Way s" by auto
qed

lemma threeWayLoop_no_DISSO:
  assumes "\<not> hasDISSO headers" and "threeWayLoop allData headers gs c rnd names n s = Inr s'"
  shows "st_swapsApplied s' = st_swapsApplied s \<and> st_byClass s' = st_byClass s
         \<and> st_swaps3Way s' = st_swaps3Way s"
proof (rule threeWayLoop_invariant [OF assms(2),
      where P = "\<lambda>t. st_swapsApplied t = st_swapsApplied s \<and> st_byClass t = st_byClass s
                     \<and> st_swaps3Way t = st_swaps3Way s"])
  show "st_swapsApplied s = st_swapsApplied s \<and> st_byClass s = st_byClass s
        \<and> st_swaps3Way s = st_swaps3Way s" by simp
next
  fix t f t'
  assume "st_swapsApplied t = st_swapsApplied s \<and> st_byClass t = st_byClass s
          \<and> st_swaps3Way t = st_swaps3Way s"
    and "threeWayIter allData headers gs c rnd names t = Inr (f, t')"
  with threeWayIter_step [of allData headers gs c rnd names t f t'] threeWayMove_hasDISSO assms(1)
  show "st_swapsApplied t' = st_swapsApplied s \<and> st_byClass t' = st_byClass s
        \<and> st_swaps3Way t' = st_swaps3Way s" by auto
qed

lemma optimizeLoops_no_DISSO:
  assumes "\<not> hasDISSO headers" and "optimizeLoops allData byClass headers gs c rnd = Inr s'"
  shows "st_swapsApplied s' = 0 \<and> st_byClass s' = byClass \<and> st_swaps3Way s' = 0"
proof -
  let ?s0 = "\<lparr> st_byClass = byClass, st_swapsApplied = 0, st_stagnationCount = 0,
               st_swaps3Way = 0, st_pos = 0 \<rparr>"
  let ?two = "twoWayLoop allData headers gs c rnd (maxSwaps ULTIMATE_CONFIG) ?s0"
  obtain s1 where two: "?two = Inr s1"
    using assms(2) by (cases ?two) (simp_all add: optimizeLoops_def)
  have three: "threeWayLoop allData headers gs c rnd (map fst (st_byClass s1)) 200 s1 = Inr s'"
    using assms(2) by (simp add: optimizeLoops_def two)
  from twoWayLoop_no_DISSO [OF assms(1) two] threeWayLoop_no_DISSO [OF assms(1) three]
  show ?thesis by simp
qed

text \<open>
  C3. If the header row has no DISSO column, \<^verbatim>\<open>canSwapStudents_Ultimate\<close> never returns
  true, and returns false for valid students and member lists; consequently the two-way
  loop, run for any number of iterations from any state, applies no swap and leaves the
  assignment as it was, and so does the whole of both loops.
\<close>

theorem no_DISSO_no_swap:
  assumes "indexOf headers ''DISSO'' = None"
  shows "canSwapStudents_Ultimate i1 i2 cls1 cls2 l1 l2 allData (Some headers) c \<noteq> Inr True
       \<and> (i1 < length allData \<and> i2 < length allData \<and> (\<forall>i \<in> set l1 \<union> set l2. i < length allData)
            \<longrightarrow> canSwapStudents_Ultimate i1 i2 cls1 cls2 l1 l2 allData (Some headers) c = Inr False)
       \<and> (twoWayLoop allData (Some headers) gs c rnd n s = Inr s'
            \<longrightarrow> st_swapsApplied s' = st_swapsApplied s \<and> st_byClass s' = st_byClass s)
       \<and> (optimizeLoops allData byClass (Some headers) gs c rnd = Inr sF
            \<longrightarrow> st_swapsApplied sF = 0 \<and> st_byClass sF = byClass)"
proof -
  have nd: "\<not> hasDISSO (Some headers)" using assms by (simp add: hasDISSO_def)
  show ?thesis
  proof (intro conjI impI)
    show "canSwapStudents_Ultimate i1 i2 cls1 cls2 l1 l2 allData (Some headers) c \<noteq> Inr True"
      by (rule canSwap_no_DISSO [OF assms])
  next
    assume "i1 < length allData \<and> i2 < length allData
            \<and> (\<forall>i \<in> set l1 \<union> set l2. i < length allData)"
    then show "canSwapStudents_Ultimate i1 i2 cls1 cls2 l1 l2 allData (Some headers) c = Inr False"
      using canSwap_no_DISSO_valid [OF assms] by blast
  next
    assume "twoWayLoop allData (Some headers) gs c rnd n s = Inr s'"
    from twoWayLoop_no_DISSO [OF nd this]
    show "st_swapsApplied s' = st_swapsApplied s" and "st_byClass s' = st_byClass s" by simp_all
  next
    assume "optimizeLoops allData byClass (Some headers) gs c rnd = Inr sF"
    from optimizeLoops_no_DISSO [OF nd this]
    show "st_swapsApplied sF = 0" and "st_byClass sF = byClass" by simp_all
  qed
qed

theorem no_DISSO_no_swap_witness:
  "canSwapStudents_Ultimate 1 3 ''A'' ''B'' [0, 1, 2] [3] allDataRun (Some headersNoDISSO)
     (Some ctxBare) = Inr False
   \<and> twoWayLoop allDataRun (Some headersNoDISSO) cohortRun (Some ctxBare) rndHalf 2 stateRun
     = Inr \<lparr> st_byClass = byClassRun, st_swapsApplied = 0, st_stagnationCount = 2,
             st_swaps3Way = 0, st_pos = 26 \<rparr>
   \<and> st_swapsApplied stateRun = 0"
proof -
  have h: "indexOf headersNoDISSO ''DISSO'' = None" by code_simp
  have v: "1 < length allDataRun \<and> 3 < length allDataRun
           \<and> (\<forall>i \<in> set [0, 1, 2] \<union> set [3]. i < length allDataRun)"
    by (simp add: allDataRun_def)
  from no_DISSO_no_swap [OF h, of 1 3 "''A''" "''B''" "[0, 1, 2]" "[3]" allDataRun "Some ctxBare"
      cohortRun rndHalf 2 stateRun
      "\<lparr> st_byClass = byClassRun, st_swapsApplied = 0, st_stagnationCount = 2,
        st_swaps3Way = 0, st_pos = 26 \<rparr>"] v twoWayLoop_example_no_DISSO
  show ?thesis by simp
qed

subsection \<open>The sum of the class scores\<close>

lemma addE_Inr: "addE a b = Inr v \<longleftrightarrow> (\<exists>x y. a = Inr x \<and> b = Inr y \<and> v = x + y)"
  by (auto simp: addE_def split: sum.splits)

lemma addE_scoreValue:
  "addE (calculateScore_Ultimate l1 allData gs k1 c) (calculateScore_Ultimate l2 allData gs k2 c) = Inr v
     \<Longrightarrow> v = scoreValue allData gs c k1 l1 + scoreValue allData gs c k2 l2"
  by (auto simp: addE_Inr scoreValue_def)

lemma addE3_scoreValue:
  "addE (addE (calculateScore_Ultimate l1 allData gs k1 c) (calculateScore_Ultimate l2 allData gs k2 c))
        (calculateScore_Ultimate l3 allData gs k3 c) = Inr v
     \<Longrightarrow> v = scoreValue allData gs c k1 l1 + scoreValue allData gs c k2 l2
             + scoreValue allData gs c k3 l3"
  by (auto simp: addE_Inr scoreValue_def)

lemma totalScore_update:
  assumes "distinct (map fst al)" and "map_of al k = Some v"
  shows "totalScore allData gs c (AList.update k v' al) =
           totalScore allData gs c al - scoreValue allData gs c k v + scoreValue allData gs c k v'"
  using assms
proof (induction al)
  case Nil
  then show ?case by simp
next
  case (Cons e al)
  obtain k0 v0 where e: "e = (k0, v0)" by (cases e)
  show ?case
  proof (cases "k0 = k")
    case True
    with Cons.prems e show ?thesis by (simp add: totalScore_def)
  next
    case False
    with Cons.prems e have "map_of al k = Some v" "distinct (map fst al)" by simp_all
    from Cons.IH [OF this(2,1)] False e show ?thesis by (simp add: totalScore_def)
  qed
qed

lemma twoWayMove_total:
  assumes "twoWayMove allData headers gs c bc bc'" and "distinct (map fst bc)"
  shows "totalScore allData gs c bc' < totalScore allData gs c bc - 0.0001
         \<and> map fst bc' = map fst bc"
proof -
  from assms(1) obtain cls1 cls2 l1 l2 before sw where
    ne: "cls1 \<noteq> cls2" and l: "map_of bc cls1 = Some l1" "map_of bc cls2 = Some l2"
    and b: "addE (calculateScore_Ultimate l1 allData gs cls1 c)
                 (calculateScore_Ultimate l2 allData gs cls2 c) = Inr before"
    and cand: "swapCandidate allData headers gs c cls1 cls2 l1 l2 before sw"
    and g: "swap_gain sw > 0.0001"
    and bc': "bc' = AList.update cls2 (replaceMember l2 (swap_idx2 sw) (swap_idx1 sw))
                      (AList.update cls1 (replaceMember l1 (swap_idx1 sw) (swap_idx2 sw)) bc)"
    unfolding twoWayMove_def by blast
  let ?l1' = "replaceMember l1 (swap_idx1 sw) (swap_idx2 sw)"
  let ?l2' = "replaceMember l2 (swap_idx2 sw) (swap_idx1 sw)"
  let ?bc1 = "AList.update cls1 ?l1' bc"
  from cand have a: "addE (calculateScore_Ultimate ?l1' allData gs cls1 c)
                          (calculateScore_Ultimate ?l2' allData gs cls2 c)
                       = Inr (before - swap_gain sw)"
    by (simp add: swapCandidate_def)
  note vb = addE_scoreValue [OF b] and va = addE_scoreValue [OF a]
  have d1: "distinct (map fst ?bc1)" using assms(2) by (rule distinct_update)
  have m1: "map_of ?bc1 cls2 = Some l2" using l ne by (simp add: update_conv')
  have t1: "totalScore allData gs c ?bc1 =
              totalScore allData gs c bc - scoreValue allData gs c cls1 l1
                + scoreValue allData gs c cls1 ?l1'"
    by (rule totalScore_update [OF assms(2) l(1)])
  have t2: "totalScore allData gs c bc' =
              totalScore allData gs c ?bc1 - scoreValue allData gs c cls2 l2
                + scoreValue allData gs c cls2 ?l2'"
    unfolding bc' by (rule totalScore_update [OF d1 m1])
  have k1: "cls1 \<in> set (map fst bc)" using l(1) by (metis domI dom_map_of_conv_image_fst set_map)
  have k2: "cls2 \<in> set (map fst bc)" using l(2) by (metis domI dom_map_of_conv_image_fst set_map)
  have keys: "map fst bc' = map fst bc"
    unfolding bc' using k1 k2 by (simp add: update_keys)
  from t1 t2 va vb g have "totalScore allData gs c bc' < totalScore allData gs c bc - 0.0001"
    by linarith
  with keys show ?thesis by simp
qed

lemma threeWayMove_total:
  assumes "threeWayMove allData headers gs c bc bc'" and "distinct (map fst bc)"
  shows "totalScore allData gs c bc' < totalScore allData gs c bc - 0.001
         \<and> map fst bc' = map fst bc"
proof -
  from assms(1) obtain r l1 l2 l3 where ok: "rotationOK allData headers gs c bc r l1 l2 l3"
    and bc': "bc' = AList.update (rot_c3 r) (replaceMember l3 (rot_c r) (rot_b r))
              (AList.update (rot_c2 r) (replaceMember l2 (rot_b r) (rot_a r))
                 (AList.update (rot_c1 r) (replaceMember l1 (rot_a r) (rot_c r)) bc))"
    unfolding threeWayMove_def by blast
  let ?l1' = "replaceMember l1 (rot_a r) (rot_c r)"
  let ?l2' = "replaceMember l2 (rot_b r) (rot_a r)"
  let ?l3' = "replaceMember l3 (rot_c r) (rot_b r)"
  let ?bc1 = "AList.update (rot_c1 r) ?l1' bc"
  let ?bc2 = "AList.update (rot_c2 r) ?l2' ?bc1"
  from ok have ne: "rot_c1 r \<noteq> rot_c2 r" "rot_c2 r \<noteq> rot_c3 r" "rot_c1 r \<noteq> rot_c3 r"
    and l: "map_of bc (rot_c1 r) = Some l1" "map_of bc (rot_c2 r) = Some l2"
      "map_of bc (rot_c3 r) = Some l3"
    by (simp_all add: rotationOK_def)
  from ok obtain before after where
    b: "addE (addE (calculateScore_Ultimate l1 allData gs (rot_c1 r) c)
                   (calculateScore_Ultimate l2 allData gs (rot_c2 r) c))
             (calculateScore_Ultimate l3 allData gs (rot_c3 r) c) = Inr before"
    and a: "addE (addE (calculateScore_Ultimate ?l1' allData gs (rot_c1 r) c)
                       (calculateScore_Ultimate ?l2' allData gs (rot_c2 r) c))
                 (calculateScore_Ultimate ?l3' allData gs (rot_c3 r) c) = Inr after"
    and g: "before - after > 0.001"
    unfolding rotationOK_def by blast
  note vb = addE3_scoreValue [OF b] and va = addE3_scoreValue [OF a]
  have d1: "distinct (map fst ?bc1)" using assms(2) by (rule distinct_update)
  have d2: "distinct (map fst ?bc2)" using d1 by (rule distinct_update)
  have m1: "map_of ?bc1 (rot_c2 r) = Some l2" using l ne by (simp add: update_conv')
  have m2: "map_of ?bc2 (rot_c3 r) = Some l3" using l ne by (simp add: update_conv')
  have t1: "totalScore allData gs c ?bc1 =
              totalScore allData gs c bc - scoreValue allData gs c (rot_c1 r) l1
                + scoreValue allData gs c (rot_c1 r) ?l1'"
    by (rule totalScore_update [OF assms(2) l(1)])
  have t2: "totalScore allData gs c ?bc2 =
              totalScore allData gs c ?bc1 - scoreValue allData gs c (rot_c2 r) l2
                + scoreValue allData gs c (rot_c2 r) ?l2'"
    by (rule totalScore_update [OF d1 m1])
  have t3: "totalScore allData gs c bc' =
              totalScore allData gs c ?bc2 - scoreValue allData gs c (rot_c3 r) l3
                + scoreValue allData gs c (rot_c3 r) ?l3'"
    unfolding bc' by (rule totalScore_update [OF d2 m2])
  have k1: "rot_c1 r \<in> set (map fst bc)" using l(1) by (metis domI dom_map_of_conv_image_fst set_map)
  have k2: "rot_c2 r \<in> set (map fst bc)" using l(2) by (metis domI dom_map_of_conv_image_fst set_map)
  have k3: "rot_c3 r \<in> set (map fst bc)" using l(3) by (metis domI dom_map_of_conv_image_fst set_map)
  have keys: "map fst bc' = map fst bc"
    unfolding bc' using k1 k2 k3 by (simp add: update_keys)
  from t1 t2 t3 va vb g have "totalScore allData gs c bc' < totalScore allData gs c bc - 0.001"
    by linarith
  with keys show ?thesis by simp
qed

text \<open>
  C4. For an assignment with distinct class names and the sum of the class scores over
  all classes: an iteration of the two-way loop either leaves the assignment and the swap
  count as they were, or applies one swap and lowers the sum by more than 0.0001; an
  iteration of the three-way loop either leaves them as they were, or applies one
  rotation and lowers the sum by more than 0.001.
\<close>

theorem applied_moves_decrease_total:
  assumes "distinct (map fst (st_byClass s))"
  shows "(twoWayIter allData headers gs c rnd s = Inr (f, s') \<longrightarrow>
            (st_swapsApplied s' = st_swapsApplied s \<and> st_byClass s' = st_byClass s)
            \<or> (st_swapsApplied s' = Suc (st_swapsApplied s)
                \<and> totalScore allData gs c (st_byClass s') < totalScore allData gs c (st_byClass s) - 0.0001))
       \<and> (threeWayIter allData headers gs c rnd names s = Inr (f3, s3) \<longrightarrow>
            (st_swapsApplied s3 = st_swapsApplied s \<and> st_byClass s3 = st_byClass s)
            \<or> (st_swapsApplied s3 = Suc (st_swapsApplied s)
                \<and> totalScore allData gs c (st_byClass s3) < totalScore allData gs c (st_byClass s) - 0.001))"
proof (intro conjI impI)
  assume "twoWayIter allData headers gs c rnd s = Inr (f, s')"
  from twoWayIter_step [OF this] twoWayMove_total [OF _ assms, of allData headers gs c "st_byClass s'"]
  show "(st_swapsApplied s' = st_swapsApplied s \<and> st_byClass s' = st_byClass s)
            \<or> (st_swapsApplied s' = Suc (st_swapsApplied s)
                \<and> totalScore allData gs c (st_byClass s') < totalScore allData gs c (st_byClass s) - 0.0001)"
    by blast
next
  assume "threeWayIter allData headers gs c rnd names s = Inr (f3, s3)"
  from threeWayIter_step [OF this] threeWayMove_total [OF _ assms, of allData headers gs c "st_byClass s3"]
  show "(st_swapsApplied s3 = st_swapsApplied s \<and> st_byClass s3 = st_byClass s)
            \<or> (st_swapsApplied s3 = Suc (st_swapsApplied s)
                \<and> totalScore allData gs c (st_byClass s3) < totalScore allData gs c (st_byClass s) - 0.001)"
    by blast
qed

theorem applied_moves_decrease_total_witness:
  "totalScore allDataRun cohortRun (Some ctxBare) byClassSwapped
     < totalScore allDataRun cohortRun (Some ctxBare) byClassRun - 0.0001
   \<and> totalScore allDataRun cohortRun (Some ctxBare) byClassRotated
     < totalScore allDataRun cohortRun (Some ctxBare) byClassRun - 0.001"
proof -
  have d: "distinct (map fst (st_byClass stateRun))" "distinct (map fst (st_byClass stateStagnated))"
    by (simp_all add: stateRun_def stateStagnated_def byClassRun_def)
  from applied_moves_decrease_total [OF d(1), of allDataRun headersRun cohortRun "Some ctxBare"
      rndHalf Continue "\<lparr> st_byClass = byClassSwapped, st_swapsApplied = 1,
        st_stagnationCount = 0, st_swaps3Way = 0, st_pos = 13 \<rparr>"] twoWayIter_example
  have a: "totalScore allDataRun cohortRun (Some ctxBare) byClassSwapped
             < totalScore allDataRun cohortRun (Some ctxBare) byClassRun - 0.0001"
    by (simp add: stateRun_def)
  from applied_moves_decrease_total [OF d(2), of allDataRun headersRun cohortRun "Some ctxBare"
      rndRun _ _ "map fst byClassRun" Continue
      "\<lparr> st_byClass = byClassRotated, st_swapsApplied = 1, st_stagnationCount = 50,
        st_swaps3Way = 1, st_pos = 775 \<rparr>"] threeWayIter_example
  have b: "totalScore allDataRun cohortRun (Some ctxBare) byClassRotated
             < totalScore allDataRun cohortRun (Some ctxBare) byClassRun - 0.001"
    by (simp add: stateStagnated_def)
  from a b show ?thesis by simp
qed

text \<open>Over the two loops of a run the sum of the class scores does not increase.\<close>

lemma run_total_nonincreasing:
  assumes "optimizeLoops allData byClass headers gs c rnd = Inr s"
    and "distinct (map fst byClass)"
  shows "totalScore allData gs c (st_byClass s) \<le> totalScore allData gs c byClass"
proof -
  have "distinct (map fst (st_byClass s))
        \<and> totalScore allData gs c (st_byClass s) \<le> totalScore allData gs c byClass"
  proof (rule optimizeLoops_invariant [OF assms(1),
        where P = "\<lambda>bc. distinct (map fst bc)
                        \<and> totalScore allData gs c bc \<le> totalScore allData gs c byClass"])
    show "distinct (map fst byClass)
          \<and> totalScore allData gs c byClass \<le> totalScore allData gs c byClass"
      using assms(2) by simp
  next
    fix bc bc'
    assume "distinct (map fst bc) \<and> totalScore allData gs c bc \<le> totalScore allData gs c byClass"
      and "twoWayMove allData headers gs c bc bc'"
    with twoWayMove_total [of allData headers gs c bc bc']
    show "distinct (map fst bc') \<and> totalScore allData gs c bc' \<le> totalScore allData gs c byClass"
      by auto
  next
    fix bc bc'
    assume "distinct (map fst bc) \<and> totalScore allData gs c bc \<le> totalScore allData gs c byClass"
      and "threeWayMove allData headers gs c bc bc'"
    with threeWayMove_total [of allData headers gs c bc bc']
    show "distinct (map fst bc') \<and> totalScore allData gs c bc' \<le> totalScore allData gs c byClass"
      by auto
  qed
  then show ?thesis by simp
qed

subsection \<open>Two-way swaps keep the antinomy codes apart\<close>

text \<open>
  A swap that the two-way search keeps has passed the DISSO test in both directions, so
  it puts no two students with the same code together; on a well-formed assignment (as
  the loader builds it) the validator then accepts the assignment after the two-way loop
  whenever it accepted the one before. The rotations of the three-way phase do not have
  this property, as the example of the next subsections shows.
\<close>

lemma dissoConflict_False:
  assumes "dissoConflict allData idxDISSO l leaving d = Inr False" and "idx \<in> set l"
    and "idx \<noteq> leaving" and "elemAt allData idx = Some st"
  shows "\<not> (codeAt (row st) idxDISSO \<noteq> [] \<and> codeAt (row st) idxDISSO = d)"
  using assms(1,2)
proof (induction l)
  case Nil
  then show ?case by simp
next
  case (Cons x rest)
  show ?case
  proof (cases "x = leaving")
    case True
    with Cons assms(3) show ?thesis by auto
  next
    case False
    show ?thesis
    proof (cases "elemAt allData x")
      case None
      with False Cons.prems(1) show ?thesis by simp
    next
      case (Some other)
      show ?thesis
      proof (cases "codeAt (row other) idxDISSO \<noteq> [] \<and> codeAt (row other) idxDISSO = d")
        case True
        with False Some Cons.prems(1) show ?thesis by (auto simp: Let_def)
      next
        case nc: False
        with False Some Cons.prems(1)
        have r: "dissoConflict allData idxDISSO rest leaving d = Inr False"
          by (simp add: Let_def)
        show ?thesis
        proof (cases "idx = x")
          case True
          with Some assms(4) nc show ?thesis by simp
        next
          case False
          with Cons.prems(2) have "idx \<in> set rest" by simp
          from Cons.IH [OF r this] show ?thesis .
        qed
      qed
    qed
  qed
qed

lemma canSwap_True_disso:
  assumes "canSwapStudents_Ultimate i1 i2 cls1 cls2 l1 l2 allData (Some headers) c = Inr True"
  shows "\<exists>st1 st2. elemAt allData i1 = Some st1 \<and> elemAt allData i2 = Some st2
           \<and> indexOf headers ''DISSO'' \<noteq> None
           \<and> (codeAt (row st1) (indexOf headers ''DISSO'') \<noteq> []
                \<longrightarrow> dissoConflict allData (indexOf headers ''DISSO'') l2 i2
                      (codeAt (row st1) (indexOf headers ''DISSO'')) = Inr False)
           \<and> (codeAt (row st2) (indexOf headers ''DISSO'') \<noteq> []
                \<longrightarrow> dissoConflict allData (indexOf headers ''DISSO'') l1 i1
                      (codeAt (row st2) (indexOf headers ''DISSO'')) = Inr False)"
  using assms
  unfolding canSwapStudents_Ultimate_def Let_def option.case
  by (simp split: sum.splits bool.splits if_splits option.splits)


lemma antinomyFree_replaceMember:
  assumes free: "antinomyFree allData (Some headers) l"
    and out: "elemAt allData out = Some sto" and inn: "elemAt allData inn = Some sti"
    and valid: "\<forall>i \<in> set l. i < length allData"
    and chk: "codeAt (row sti) (indexOf headers ''DISSO'') \<noteq> []
                \<longrightarrow> dissoConflict allData (indexOf headers ''DISSO'') l out
                      (codeAt (row sti) (indexOf headers ''DISSO'')) = Inr False"
  shows "antinomyFree allData (Some headers) (replaceMember l out inn)"
  unfolding antinomyFree_def
proof (intro ballI impI)
  fix i j
  assume i: "i \<in> set (replaceMember l out inn)" and j: "j \<in> set (replaceMember l out inn)"
    and ne: "i \<noteq> j \<and> dissoOf allData (Some headers) i \<noteq> []"
  have dinn: "dissoOf allData (Some headers) inn = codeAt (row sti) (indexOf headers ''DISSO'')"
    using inn by (simp add: dissoOf_def)
  have other: "dissoOf allData (Some headers) x \<noteq> dissoOf allData (Some headers) inn
               \<or> dissoOf allData (Some headers) inn = []"
    if x: "x \<in> set l" "x \<noteq> out" for x
  proof (cases "codeAt (row sti) (indexOf headers ''DISSO'') = []")
    case True
    with dinn show ?thesis by simp
  next
    case False
    with chk have c: "dissoConflict allData (indexOf headers ''DISSO'') l out
                      (codeAt (row sti) (indexOf headers ''DISSO'')) = Inr False" by simp
    from valid x(1) obtain stx where stx: "elemAt allData x = Some stx"
      by (auto simp: elemAt_def)
    from dissoConflict_False [OF c x(1) x(2) stx] False
    have "codeAt (row stx) (indexOf headers ''DISSO'') \<noteq> codeAt (row sti) (indexOf headers ''DISSO'')"
      by auto
    with stx dinn show ?thesis by (simp add: dissoOf_def)
  qed
  from i j have ij: "(i \<in> set l \<and> i \<noteq> out) \<or> i = inn" "(j \<in> set l \<and> j \<noteq> out) \<or> j = inn"
    by (auto simp: set_replaceMember)
  show "dissoOf allData (Some headers) i \<noteq> dissoOf allData (Some headers) j"
  proof (cases "i = inn")
    case True
    with ne ij(2) have "j \<in> set l" "j \<noteq> out" by auto
    from other [OF this] True ne show ?thesis by auto
  next
    case iF: False
    with ij(1) have il: "i \<in> set l" "i \<noteq> out" by auto
    show ?thesis
    proof (cases "j = inn")
      case True
      from other [OF il] True ne show ?thesis by auto
    next
      case False
      with ij(2) have "j \<in> set l" by auto
      with il(1) ne free show ?thesis by (auto simp: antinomyFree_def)
    qed
  qed
qed

lemma twoWayMove_keeps_antinomy:
  assumes mv: "twoWayMove allData headers gs c bc bc'"
    and valid: "\<forall>k l. map_of bc k = Some l \<longrightarrow> (\<forall>i \<in> set l. i < length allData)"
    and free: "noAntinomy allData headers bc"
  shows "noAntinomy allData headers bc'"
proof -
  from mv obtain cls1 cls2 l1 l2 before sw where
    ne: "cls1 \<noteq> cls2" and l: "map_of bc cls1 = Some l1" "map_of bc cls2 = Some l2"
    and cand: "swapCandidate allData headers gs c cls1 cls2 l1 l2 before sw"
    and bc': "bc' = AList.update cls2 (replaceMember l2 (swap_idx2 sw) (swap_idx1 sw))
                      (AList.update cls1 (replaceMember l1 (swap_idx1 sw) (swap_idx2 sw)) bc)"
    unfolding twoWayMove_def by blast
  from cand have can: "canSwapStudents_Ultimate (swap_idx1 sw) (swap_idx2 sw) cls1 cls2 l1 l2
                         allData headers c = Inr True"
    by (simp add: swapCandidate_def)
  from canSwap_headers [OF can] obtain h where h: "headers = Some h" by blast
  from canSwap_True_disso [OF can [unfolded h]] obtain st1 st2 where
    st: "elemAt allData (swap_idx1 sw) = Some st1" "elemAt allData (swap_idx2 sw) = Some st2"
    and c1: "codeAt (row st1) (indexOf h ''DISSO'') \<noteq> []
                \<longrightarrow> dissoConflict allData (indexOf h ''DISSO'') l2 (swap_idx2 sw)
                      (codeAt (row st1) (indexOf h ''DISSO'')) = Inr False"
    and c2: "codeAt (row st2) (indexOf h ''DISSO'') \<noteq> []
                \<longrightarrow> dissoConflict allData (indexOf h ''DISSO'') l1 (swap_idx1 sw)
                      (codeAt (row st2) (indexOf h ''DISSO'')) = Inr False"
    by blast
  from free l have f: "antinomyFree allData (Some h) l1" "antinomyFree allData (Some h) l2"
    by (auto simp: noAntinomy_def h)
  from valid l have v: "\<forall>i \<in> set l1. i < length allData" "\<forall>i \<in> set l2. i < length allData"
    by blast+
  have n1: "antinomyFree allData (Some h) (replaceMember l1 (swap_idx1 sw) (swap_idx2 sw))"
    by (rule antinomyFree_replaceMember [OF f(1) st(1) st(2) v(1) c2])
  have n2: "antinomyFree allData (Some h) (replaceMember l2 (swap_idx2 sw) (swap_idx1 sw))"
    by (rule antinomyFree_replaceMember [OF f(2) st(2) st(1) v(2) c1])
  show ?thesis
    unfolding noAntinomy_def bc' h
  proof (intro allI impI)
    fix k l
    assume m: "map_of (AList.update cls2 (replaceMember l2 (swap_idx2 sw) (swap_idx1 sw))
                 (AList.update cls1 (replaceMember l1 (swap_idx1 sw) (swap_idx2 sw)) bc)) k = Some l"
    show "antinomyFree allData (Some h) l"
    proof (cases "k = cls2")
      case True
      with m n2 show ?thesis by (simp add: update_conv')
    next
      case k2: False
      show ?thesis
      proof (cases "k = cls1")
        case True
        with m n1 k2 show ?thesis by (simp add: update_conv')
      next
        case False
        with m k2 have "map_of bc k = Some l" by (simp add: update_conv')
        with free show ?thesis by (auto simp: noAntinomy_def h)
      qed
    qed
  qed
qed


lemma twoWayMove_wellFormed:
  assumes mv: "twoWayMove allData headers gs c bc bc'" and wf: "wellFormed (length allData) bc"
  shows "wellFormed (length allData) bc'"
proof -
  from mv obtain cls1 cls2 l1 l2 before sw where
    ne: "cls1 \<noteq> cls2" and l: "map_of bc cls1 = Some l1" "map_of bc cls2 = Some l2"
    and cand: "swapCandidate allData headers gs c cls1 cls2 l1 l2 before sw"
    and bc': "bc' = AList.update cls2 (replaceMember l2 (swap_idx2 sw) (swap_idx1 sw))
                      (AList.update cls1 (replaceMember l1 (swap_idx1 sw) (swap_idx2 sw)) bc)"
    unfolding twoWayMove_def by blast
  define i1 where "i1 = swap_idx1 sw"
  define i2 where "i2 = swap_idx2 sw"
  from cand have mem: "i1 \<in> set l1" "i2 \<in> set l2"
    by (simp_all add: swapCandidate_def i1_def i2_def)
  from wf l have d: "distinct l1" "distinct l2"
    and v: "\<forall>i \<in> set l1. i < length allData" "\<forall>i \<in> set l2. i < length allData"
    by (auto simp: wellFormed_def)
  from wf l ne have dj: "set l1 \<inter> set l2 = {}" unfolding wellFormed_def by blast
  have other: "set l \<inter> set l1 = {}" "set l \<inter> set l2 = {}"
    if "map_of bc k = Some l" "k \<noteq> cls1" "k \<noteq> cls2" for k l
    using wf l that unfolding wellFormed_def by blast+
  have m: "map_of bc' = (map_of bc)(cls1 \<mapsto> replaceMember l1 i1 i2, cls2 \<mapsto> replaceMember l2 i2 i1)"
    by (simp add: bc' update_conv' i1_def i2_def)
  have d1: "distinct (replaceMember l1 i1 i2)" using d(1) dj mem
    by (auto simp: replaceMember_def)
  have d2: "distinct (replaceMember l2 i2 i1)" using d(2) dj mem
    by (auto simp: replaceMember_def)
  have v1: "\<forall>i \<in> set (replaceMember l1 i1 i2). i < length allData"
    using v mem by (auto simp: set_replaceMember)
  have v2: "\<forall>i \<in> set (replaceMember l2 i2 i1). i < length allData"
    using v mem by (auto simp: set_replaceMember)
  have s12: "set (replaceMember l1 i1 i2) \<inter> set (replaceMember l2 i2 i1) = {}"
    using dj mem by (auto simp: set_replaceMember)
  have so: "set l \<inter> set (replaceMember l1 i1 i2) = {}" "set l \<inter> set (replaceMember l2 i2 i1) = {}"
    if "map_of bc k = Some l" "k \<noteq> cls1" "k \<noteq> cls2" for k l
    using other [OF that] mem by (auto simp: set_replaceMember)
  have keys: "distinct (map fst bc')" using wf by (simp add: bc' wellFormed_def distinct_update)
  have lists: "distinct l \<and> (\<forall>i \<in> set l. i < length allData)" if "map_of bc' k = Some l" for k l
  proof (cases "k = cls2")
    case True
    with that m d2 v2 show ?thesis by simp
  next
    case k2: False
    show ?thesis
    proof (cases "k = cls1")
      case True
      with that m k2 d1 v1 show ?thesis by simp
    next
      case False
      with that m k2 have "map_of bc k = Some l" by simp
      with wf show ?thesis by (simp add: wellFormed_def)
    qed
  qed
  have disj: "set la \<inter> set lb = {}"
    if a: "map_of bc' ka = Some la" and b: "map_of bc' kb = Some lb" and ab: "ka \<noteq> kb" for ka la kb lb
  proof -
    consider "ka = cls1" | "ka = cls2" | "ka \<noteq> cls1" "ka \<noteq> cls2" by blast
    then show ?thesis
    proof cases
      case 1
      with a m ne have la: "la = replaceMember l1 i1 i2" by simp
      show ?thesis
      proof (cases "kb = cls2")
        case True
        with b m have "lb = replaceMember l2 i2 i1" by simp
        with la s12 show ?thesis by simp
      next
        case False
        with b m 1 ab have "map_of bc kb = Some lb" by simp
        from so(1) [OF this] 1 ab False la show ?thesis by auto
      qed
    next
      case 2
      with a m have la: "la = replaceMember l2 i2 i1" by simp
      show ?thesis
      proof (cases "kb = cls1")
        case True
        with b m ne have "lb = replaceMember l1 i1 i2" by simp
        with la s12 show ?thesis by auto
      next
        case False
        with b m 2 ab have "map_of bc kb = Some lb" by simp
        from so(2) [OF this] 2 ab False la show ?thesis by auto
      qed
    next
      case 3
      with a m have ma: "map_of bc ka = Some la" by simp
      show ?thesis
      proof (cases "kb = cls2")
        case True
        with b m have "lb = replaceMember l2 i2 i1" by simp
        with so(2) [OF ma 3] show ?thesis by simp
      next
        case k2: False
        show ?thesis
        proof (cases "kb = cls1")
          case True
          with b m k2 have "lb = replaceMember l1 i1 i2" by simp
          with so(1) [OF ma 3] show ?thesis by simp
        next
          case False
          with b m k2 have "map_of bc kb = Some lb" by simp
          with ma ab wf show ?thesis unfolding wellFormed_def by blast
        qed
      qed
    qed
  qed
  show ?thesis
    unfolding wellFormed_def using keys lists disj by blast
qed

lemma twoWayLoop_keeps_antinomy:
  assumes "twoWayLoop allData headers gs c rnd n s = Inr s'"
    and "wellFormed (length allData) (st_byClass s)" and "noAntinomy allData headers (st_byClass s)"
  shows "wellFormed (length allData) (st_byClass s') \<and> noAntinomy allData headers (st_byClass s')"
proof (rule twoWayLoop_invariant
    [where P = "\<lambda>t. wellFormed (length allData) (st_byClass t) \<and> noAntinomy allData headers (st_byClass t)",
      OF assms(1)])
  show "wellFormed (length allData) (st_byClass s) \<and> noAntinomy allData headers (st_byClass s)"
    using assms(2,3) by simp
next
  fix t f t'
  assume P: "wellFormed (length allData) (st_byClass t) \<and> noAntinomy allData headers (st_byClass t)"
    and it: "twoWayIter allData headers gs c rnd t = Inr (f, t')"
  from twoWayIter_step [OF it]
  consider "st_byClass t' = st_byClass t"
    | "twoWayMove allData headers gs c (st_byClass t) (st_byClass t')" by blast
  then show "wellFormed (length allData) (st_byClass t') \<and> noAntinomy allData headers (st_byClass t')"
  proof cases
    case 1
    with P show ?thesis by simp
  next
    case 2
    from P have v: "\<forall>k l. map_of (st_byClass t) k = Some l \<longrightarrow> (\<forall>i \<in> set l. i < length allData)"
      by (simp add: wellFormed_def)
    from twoWayMove_wellFormed [OF 2] twoWayMove_keeps_antinomy [OF 2 v] P show ?thesis by simp
  qed
qed

lemma countDisso_Inr:
  assumes "\<forall>i \<in> set l. i < length allData"
  shows "\<exists>r. countDisso allData idxD l acc = Inr r
           \<and> (distinct (map fst acc) \<longrightarrow> distinct (map fst r))
           \<and> (\<forall>d. map_of r d =
                 (if d = [] \<or> filter (\<lambda>i. codeAt (row (allData ! i)) idxD = d) l = []
                  then map_of acc d
                  else Some ((case map_of acc d of None \<Rightarrow> [] | Some m \<Rightarrow> m)
                             @ filter (\<lambda>i. codeAt (row (allData ! i)) idxD = d) l)))"
  using assms
proof (induction l arbitrary: acc)
  case Nil
  then show ?case by simp
next
  case (Cons x rest)
  have e: "elemAt allData x = Some (allData ! x)" using Cons.prems by (simp add: elemAt_def)
  have vr: "\<forall>i \<in> set rest. i < length allData" using Cons.prems by simp
  define dx where "dx = codeAt (row (allData ! x)) idxD"
  show ?case
  proof (cases "dx = []")
    case True
    have step: "countDisso allData idxD (x # rest) acc = countDisso allData idxD rest acc"
      using e True by (simp add: dx_def Let_def)
    from Cons.IH [OF vr, of acc] obtain r where
      r: "countDisso allData idxD rest acc = Inr r"
        "distinct (map fst acc) \<longrightarrow> distinct (map fst r)"
        "\<forall>d. map_of r d =
                 (if d = [] \<or> filter (\<lambda>i. codeAt (row (allData ! i)) idxD = d) rest = []
                  then map_of acc d
                  else Some ((case map_of acc d of None \<Rightarrow> [] | Some m \<Rightarrow> m)
                             @ filter (\<lambda>i. codeAt (row (allData ! i)) idxD = d) rest))"
      by blast
    show ?thesis
      unfolding step
      apply (rule exI [of _ r])
      using r True by (auto simp: dx_def)
  next
    case False
    define acc' where "acc' = AList.update dx
                        (case map_of acc dx of None \<Rightarrow> [x] | Some m \<Rightarrow> m @ [x]) acc"
    have step: "countDisso allData idxD (x # rest) acc = countDisso allData idxD rest acc'"
      using e False by (simp add: dx_def Let_def acc'_def)
    from Cons.IH [OF vr, of acc'] obtain r where
      r: "countDisso allData idxD rest acc' = Inr r"
        "distinct (map fst acc') \<longrightarrow> distinct (map fst r)"
        "\<forall>d. map_of r d =
                 (if d = [] \<or> filter (\<lambda>i. codeAt (row (allData ! i)) idxD = d) rest = []
                  then map_of acc' d
                  else Some ((case map_of acc' d of None \<Rightarrow> [] | Some m \<Rightarrow> m)
                             @ filter (\<lambda>i. codeAt (row (allData ! i)) idxD = d) rest))"
      by blast
    have da: "distinct (map fst acc) \<longrightarrow> distinct (map fst acc')"
      by (simp add: acc'_def distinct_update)
    have ma: "map_of acc' d = (if d = dx then Some ((case map_of acc dx of None \<Rightarrow> [] | Some m \<Rightarrow> m) @ [x])
                               else map_of acc d)" for d
      by (simp add: acc'_def update_conv' split: option.split)
    have "map_of r d =
                 (if d = [] \<or> filter (\<lambda>i. codeAt (row (allData ! i)) idxD = d) (x # rest) = []
                  then map_of acc d
                  else Some ((case map_of acc d of None \<Rightarrow> [] | Some m \<Rightarrow> m)
                             @ filter (\<lambda>i. codeAt (row (allData ! i)) idxD = d) (x # rest)))" for d
      using r(3) [rule_format, of d] False
      by (cases "d = dx") (auto simp: ma dx_def)
    with r(1,2) da show ?thesis
      unfolding step by blast
  qed
qed

lemma length_filter_le_1:
  assumes "distinct l"
  shows "length (filter P l) \<le> 1 \<longleftrightarrow> (\<forall>i \<in> set l. \<forall>j \<in> set l. P i \<and> P j \<longrightarrow> i = j)"
  using assms
proof (induction l)
  case Nil
  then show ?case by simp
next
  case (Cons x xs)
  then show ?case
    by (auto simp: filter_empty_conv)
qed


lemma countDisso_no_duplicate:
  assumes "\<forall>i \<in> set l. i < length allData"
  shows "\<exists>r. countDisso allData idxD l [] = Inr r
           \<and> (filter (\<lambda>(code, m). length m > 1) r = []
                \<longleftrightarrow> (\<forall>d. d \<noteq> [] \<longrightarrow>
                       length (filter (\<lambda>i. codeAt (row (allData ! i)) idxD = d) l) \<le> 1))"
proof -
  let ?f = "\<lambda>d. filter (\<lambda>i. codeAt (row (allData ! i)) idxD = d) l"
  from countDisso_Inr [OF assms, of idxD "[]"] obtain r where
    r: "countDisso allData idxD l [] = Inr r" and dk: "distinct (map fst r)"
    and mo: "\<And>d. map_of r d = (if d = [] \<or> ?f d = [] then None else Some (?f d))"
    by auto
  have "filter (\<lambda>(code, m). length m > 1) r = [] \<longleftrightarrow> (\<forall>d. d \<noteq> [] \<longrightarrow> length (?f d) \<le> 1)"
  proof
    assume "filter (\<lambda>(code, m). length m > 1) r = []"
    then have all: "\<And>d m. (d, m) \<in> set r \<Longrightarrow> length m \<le> 1"
      by (fastforce simp: filter_empty_conv)
    show "\<forall>d. d \<noteq> [] \<longrightarrow> length (?f d) \<le> 1"
    proof (intro allI impI)
      fix d :: string
      assume d: "d \<noteq> []"
      show "length (?f d) \<le> 1"
      proof (cases "?f d = []")
        case True
        then show ?thesis by simp
      next
        case False
        with d mo [of d] have "map_of r d = Some (?f d)" by simp
        from all [OF map_of_SomeD [OF this]] show ?thesis .
      qed
    qed
  next
    assume a: "\<forall>d. d \<noteq> [] \<longrightarrow> length (?f d) \<le> 1"
    have "\<not> length m > 1" if "(d, m) \<in> set r" for d m
    proof -
      from map_of_is_SomeI [OF dk that] have s: "map_of r d = Some m" .
      with mo [of d] have "d \<noteq> []" "m = ?f d" by (auto split: if_splits)
      with a show ?thesis by auto
    qed
    then show "filter (\<lambda>(code, m). length m > 1) r = []"
      by (auto simp: filter_empty_conv)
  qed
  with r show ?thesis by blast
qed

lemma antinomyFree_count:
  assumes v: "\<forall>i \<in> set l. i < length allData" and d: "distinct l"
  shows "antinomyFree allData (Some h) l \<longleftrightarrow>
           (\<forall>d. d \<noteq> [] \<longrightarrow>
              length (filter (\<lambda>i. codeAt (row (allData ! i)) (indexOf h ''DISSO'') = d) l) \<le> 1)"
proof -
  let ?code = "\<lambda>i. codeAt (row (allData ! i)) (indexOf h ''DISSO'')"
  have dis: "dissoOf allData (Some h) i = ?code i" if "i \<in> set l" for i
    using v that by (simp add: dissoOf_def elemAt_def)
  show ?thesis
  proof
    assume f: "antinomyFree allData (Some h) l"
    show "\<forall>d. d \<noteq> [] \<longrightarrow> length (filter (\<lambda>i. ?code i = d) l) \<le> 1"
    proof (intro allI impI)
      fix dd :: string
      assume dd: "dd \<noteq> []"
      have "i = j" if "i \<in> set l" "j \<in> set l" "?code i = dd \<and> ?code j = dd" for i j
      proof (rule ccontr)
        assume "i \<noteq> j"
        with f that(1,2) have "dissoOf allData (Some h) i \<noteq> []
                 \<longrightarrow> dissoOf allData (Some h) i \<noteq> dissoOf allData (Some h) j"
          unfolding antinomyFree_def by blast
        with dd that(3) dis [OF that(1)] dis [OF that(2)] show False by simp
      qed
      then show "length (filter (\<lambda>i. ?code i = dd) l) \<le> 1"
        unfolding length_filter_le_1 [OF d] by blast
    qed
  next
    assume a: "\<forall>d. d \<noteq> [] \<longrightarrow> length (filter (\<lambda>i. ?code i = d) l) \<le> 1"
    show "antinomyFree allData (Some h) l"
      unfolding antinomyFree_def
    proof (intro ballI impI)
      fix i j
      assume i: "i \<in> set l" and j: "j \<in> set l"
        and ne: "i \<noteq> j \<and> dissoOf allData (Some h) i \<noteq> []"
      show "dissoOf allData (Some h) i \<noteq> dissoOf allData (Some h) j"
      proof
        assume eq: "dissoOf allData (Some h) i = dissoOf allData (Some h) j"
        from ne dis [OF i] have c: "?code i \<noteq> []" by simp
        from a c have "length (filter (\<lambda>k. ?code k = ?code i) l) \<le> 1" by blast
        then have "\<forall>x \<in> set l. \<forall>y \<in> set l. ?code x = ?code i \<and> ?code y = ?code i \<longrightarrow> x = y"
          unfolding length_filter_le_1 [OF d] .
        with i j eq dis [OF i] dis [OF j] have "i = j" by auto
        with ne show False by simp
      qed
    qed
  qed
qed

lemma validateLoop_Inr:
  assumes "\<forall>(k, l) \<in> set bc. \<forall>i \<in> set l. i < length allData"
  shows "\<exists>r. validateLoop allData idxD bc dups = Inr r
           \<and> (r = [] \<longleftrightarrow> dups = []
                \<and> (\<forall>(k, l) \<in> set bc. \<forall>d. d \<noteq> [] \<longrightarrow>
                       length (filter (\<lambda>i. codeAt (row (allData ! i)) idxD = d) l) \<le> 1))"
  using assms
proof (induction bc arbitrary: dups)
  case Nil
  then show ?case by simp
next
  case (Cons e rest)
  obtain cls l where e: "e = (cls, l)" by (cases e)
  from Cons.prems e have vl: "\<forall>i \<in> set l. i < length allData"
    and vr: "\<forall>(k, l) \<in> set rest. \<forall>i \<in> set l. i < length allData" by auto
  from countDisso_no_duplicate [OF vl, of idxD] obtain dc where
    dc: "countDisso allData idxD l [] = Inr dc"
    and q: "filter (\<lambda>(code, m). length m > 1) dc = []
              \<longleftrightarrow> (\<forall>d. d \<noteq> [] \<longrightarrow>
                     length (filter (\<lambda>i. codeAt (row (allData ! i)) idxD = d) l) \<le> 1)"
    by blast
  define dups' where "dups' = dups @
             map (\<lambda>(code, m). \<lparr> dup_classe = cls, dup_code = code, dup_count = length m,
                                 dup_members = m \<rparr>)
                 (filter (\<lambda>(code, m). length m > 1) dc)"
  have step: "validateLoop allData idxD (e # rest) dups = validateLoop allData idxD rest dups'"
    by (simp add: e dc dups'_def)
  have d': "dups' = [] \<longleftrightarrow> dups = [] \<and> filter (\<lambda>(code, m). length m > 1) dc = []"
    by (simp add: dups'_def)
  from Cons.IH [OF vr, of dups'] obtain r where
    r: "validateLoop allData idxD rest dups' = Inr r"
    and rr: "r = [] \<longleftrightarrow> dups' = []
                \<and> (\<forall>(k, l) \<in> set rest. \<forall>d. d \<noteq> [] \<longrightarrow>
                       length (filter (\<lambda>i. codeAt (row (allData ! i)) idxD = d) l) \<le> 1)"
    by blast
  show ?case
    unfolding step
    apply (rule exI [of _ r])
    using r rr d' q by (simp add: e)
qed

lemma validate_ok_iff:
  assumes h: "indexOf h ''DISSO'' \<noteq> None" and wf: "wellFormed (length allData) bc"
  shows "\<exists>r. validateDISSOConstraints_Ultimate allData bc (Some h) = Inr r
           \<and> (val_ok r \<longleftrightarrow> noAntinomy allData (Some h) bc)"
proof -
  from wf have dk: "distinct (map fst bc)" by (simp add: wellFormed_def)
  have mem1: "map_of bc k = Some l" if "(k, l) \<in> set bc" for k l
    using dk that by (rule map_of_is_SomeI)
  have mem2: "(k, l) \<in> set bc" if "map_of bc k = Some l" for k l
    using that by (rule map_of_SomeD)
  have lists: "distinct l" "\<forall>i \<in> set l. i < length allData" if "(k, l) \<in> set bc" for k l
    using wf mem1 [OF that] unfolding wellFormed_def by blast+
  then have v: "\<forall>(k, l) \<in> set bc. \<forall>i \<in> set l. i < length allData" by blast
  from validateLoop_Inr [OF v, of "indexOf h ''DISSO''" "[]"] obtain r where
    r: "validateLoop allData (indexOf h ''DISSO'') bc [] = Inr r"
    and rr': "r = [] \<longleftrightarrow> ([] :: duplicate list) = []
               \<and> (\<forall>(k, l) \<in> set bc. \<forall>d. d \<noteq> [] \<longrightarrow>
               length (filter (\<lambda>i. codeAt (row (allData ! i)) (indexOf h ''DISSO'') = d) l) \<le> 1)"
    by blast
  have rr: "r = [] \<longleftrightarrow> (\<forall>(k, l) \<in> set bc. \<forall>d. d \<noteq> [] \<longrightarrow>
               length (filter (\<lambda>i. codeAt (row (allData ! i)) (indexOf h ''DISSO'') = d) l) \<le> 1)"
    unfolding rr' by blast
  have "r = [] \<longleftrightarrow> noAntinomy allData (Some h) bc"
  proof
    assume "r = []"
    with rr have a: "\<And>k l. (k, l) \<in> set bc \<Longrightarrow> \<forall>d. d \<noteq> [] \<longrightarrow>
               length (filter (\<lambda>i. codeAt (row (allData ! i)) (indexOf h ''DISSO'') = d) l) \<le> 1"
      by blast
    show "noAntinomy allData (Some h) bc"
      unfolding noAntinomy_def
    proof (intro allI impI)
      fix k l
      assume "map_of bc k = Some l"
      then have m: "(k, l) \<in> set bc" by (rule mem2)
      from a [OF m] show "antinomyFree allData (Some h) l"
        unfolding antinomyFree_count [OF lists(2) [OF m] lists(1) [OF m]] .
    qed
  next
    assume n: "noAntinomy allData (Some h) bc"
    have "\<forall>d. d \<noteq> [] \<longrightarrow>
               length (filter (\<lambda>i. codeAt (row (allData ! i)) (indexOf h ''DISSO'') = d) l) \<le> 1"
      if m: "(k, l) \<in> set bc" for k l
    proof -
      from n mem1 [OF m] have "antinomyFree allData (Some h) l"
        unfolding noAntinomy_def by blast
      then show ?thesis
        unfolding antinomyFree_count [OF lists(2) [OF m] lists(1) [OF m]] .
    qed
    with rr show "r = []" by blast
  qed
  with r h show ?thesis
    by (auto simp: validateDISSOConstraints_Ultimate_def Let_def)
qed

lemma twoWayLoop_validated:
  assumes h: "indexOf h ''DISSO'' \<noteq> None" and wf: "wellFormed (length allData) (st_byClass s)"
    and ok: "validateDISSOConstraints_Ultimate allData (st_byClass s) (Some h) = Inr r" "val_ok r"
    and run: "twoWayLoop allData (Some h) gs c rnd n s = Inr s'"
  shows "\<exists>r'. validateDISSOConstraints_Ultimate allData (st_byClass s') (Some h) = Inr r' \<and> val_ok r'"
proof -
  from validate_ok_iff [OF h wf] ok have "noAntinomy allData (Some h) (st_byClass s)" by auto
  from twoWayLoop_keeps_antinomy [OF run wf this]
  have "wellFormed (length allData) (st_byClass s')" "noAntinomy allData (Some h) (st_byClass s')"
    by simp_all
  with validate_ok_iff [OF h this(1)] show ?thesis by auto
qed


lemma pushMember_wellFormed:
  assumes "wellFormed n byClass"
  shows "wellFormed (Suc n) (pushMember byClass k n)"
proof -
  define old where "old = (case map_of byClass k of None \<Rightarrow> [] | Some l \<Rightarrow> l)"
  have m: "map_of (pushMember byClass k n) = (map_of byClass)(k \<mapsto> old @ [n])"
    by (simp add: pushMember_def update_conv' old_def)
  from assms have lists: "\<And>k' l. map_of byClass k' = Some l \<Longrightarrow> distinct l \<and> (\<forall>i \<in> set l. i < n)"
    and disj: "\<And>k1 l1 k2 l2. map_of byClass k1 = Some l1 \<Longrightarrow> map_of byClass k2 = Some l2
                 \<Longrightarrow> k1 \<noteq> k2 \<Longrightarrow> set l1 \<inter> set l2 = {}"
    unfolding wellFormed_def by blast+
  have old: "distinct old \<and> (\<forall>i \<in> set old. i < n)"
    using lists [of k] by (cases "map_of byClass k") (simp_all add: old_def)
  have oldd: "set old \<inter> set l = {}" if "map_of byClass k' = Some l" "k' \<noteq> k" for k' l
  proof (cases "map_of byClass k")
    case None
    then show ?thesis by (simp add: old_def)
  next
    case (Some lo)
    from disj [OF Some that(1)] that(2) Some show ?thesis by (auto simp: old_def)
  qed
  have keys: "distinct (map fst (pushMember byClass k n))"
    using assms by (simp add: pushMember_def wellFormed_def distinct_update)
  have l': "distinct l \<and> (\<forall>i \<in> set l. i < Suc n)"
    if "map_of (pushMember byClass k n) k' = Some l" for k' l
  proof (cases "k' = k")
    case True
    with that m have "l = old @ [n]" by simp
    with old show ?thesis by auto
  next
    case False
    with that m have "map_of byClass k' = Some l" by simp
    from lists [OF this] show ?thesis by auto
  qed
  have d': "set la \<inter> set lb = {}"
    if a: "map_of (pushMember byClass k n) ka = Some la"
      and b: "map_of (pushMember byClass k n) kb = Some lb" and ab: "ka \<noteq> kb" for ka la kb lb
  proof (cases "ka = k")
    case True
    with a m have la: "la = old @ [n]" by simp
    from True ab b m have mb: "map_of byClass kb = Some lb" by simp
    from lists [OF mb] have "n \<notin> set lb" by auto
    with oldd [OF mb] ab True la show ?thesis by auto
  next
    case False
    with a m have ma: "map_of byClass ka = Some la" by simp
    show ?thesis
    proof (cases "kb = k")
      case True
      with b m have lb: "lb = old @ [n]" by simp
      from lists [OF ma] have "n \<notin> set la" by auto
      with oldd [OF ma False] lb show ?thesis by auto
    next
      case kb: False
      with b m have "map_of byClass kb = Some lb" by simp
      from disj [OF ma this ab] show ?thesis .
    qed
  qed
  show ?thesis
    unfolding wellFormed_def using keys l' d' by blast
qed

lemma groupLoop_wellFormed:
  "wellFormed n byClass \<Longrightarrow> wellFormed (n + length names) (groupLoop names n byClass)"
proof (induction names arbitrary: n byClass)
  case Nil
  then show ?case by simp
next
  case (Cons k rest)
  from Cons.IH [OF pushMember_wellFormed [OF Cons.prems, of k]] show ?case by simp
qed

lemma loaded_wellFormed: "wellFormed (length names) (groupLoop names 0 [])"
  using groupLoop_wellFormed [of 0 "[]" names] by (simp add: wellFormed_def)

subsection \<open>The example run, step by step\<close>

text \<open>
  On the example every attempt of the two-way search draws student 0 of the partner
  class A, who is fixed, so no swap is found: each iteration consumes 14 draws and
  raises the stagnation counter, and the loop stops after 50 iterations at position 700.
\<close>

lemma swapInnerLoop_partner_fixed:
  assumes "pick idxList2 0 = Some i2" and "elemAt allData i2 = Some s2" and "isFixed s2"
    and "\<forall>k. p \<le> k \<and> k < p + n \<longrightarrow> rnd k = 0"
  shows "swapInnerLoop allData headers gs c rnd cls1Name cls2Name idxList1 idxList2 scoreBefore i1
           n p acc = Inr (p + n, acc)"
  using assms(4)
proof (induction n arbitrary: p)
  case 0
  then show ?case by simp
next
  case (Suc n)
  have r: "rnd p = 0" using Suc.prems by simp
  have "\<forall>k. Suc p \<le> k \<and> k < Suc p + n \<longrightarrow> rnd k = 0" using Suc.prems by simp
  from Suc.IH [OF this] show ?case
    using assms(1-3) r by simp
qed

lemma swapOuterLoop_partner_fixed:
  assumes "pick idxList1 0 = Some i1" and "elemAt allData i1 = Some s1" and "\<not> isFixed s1"
    and "pick idxList2 0 = Some i2" and "elemAt allData i2 = Some s2" and "isFixed s2"
    and "\<forall>k. p \<le> k \<and> k < p + n * Suc m \<longrightarrow> rnd k = 0"
  shows "swapOuterLoop allData headers gs c rnd cls1Name cls2Name idxList1 idxList2 scoreBefore
           m n p acc = Inr (p + n * Suc m, acc)"
  using assms(7)
proof (induction n arbitrary: p)
  case 0
  then show ?case by simp
next
  case (Suc n)
  have r: "rnd p = 0" using Suc.prems by simp
  have inner: "swapInnerLoop allData headers gs c rnd cls1Name cls2Name idxList1 idxList2
                 scoreBefore i1 m (Suc p) acc = Inr (Suc p + m, acc)"
    by (rule swapInnerLoop_partner_fixed [where rnd = rnd, OF assms(4-6)]) (use Suc.prems in simp)
  have "\<forall>k. Suc p + m \<le> k \<and> k < Suc p + m + n * Suc m \<longrightarrow> rnd k = 0"
    using Suc.prems by simp
  from Suc.IH [OF this] show ?case
    using assms(1-3) r inner by (simp add: algebra_simps)
qed

lemma findPartnerClass_explore:
  assumes others: "filter (\<lambda>k. k \<noteq> worstClass) (map fst byClass) \<noteq> []"
    and worst: "map_of byClass worstClass = Some wl" "wl \<noteq> []"
    and valid: "\<forall>k l. map_of byClass k = Some l \<longrightarrow> (\<forall>i \<in> set l. i < length allData)"
    and r: "rnd p < 0.2"
  shows "findPartnerClass_Ultimate worstClass byClass allData gs rnd p =
           Inr (pick (filter (\<lambda>k. k \<noteq> worstClass) (map fst byClass)) (rnd (Suc p)), Suc (Suc p))"
proof -
  define classes where "classes = filter (\<lambda>k. k \<noteq> worstClass) (map fst byClass)"
  have cl: "\<forall>k \<in> set classes. \<exists>l. map_of byClass k = Some l \<and> (\<forall>i \<in> set l. i < length allData)"
  proof
    fix k assume "k \<in> set classes"
    then have "k \<in> fst ` set byClass" by (auto simp: classes_def)
    then obtain l where "map_of byClass k = Some l"
      by (metis domD dom_map_of_conv_image_fst)
    with valid show "\<exists>l. map_of byClass k = Some l \<and> (\<forall>i \<in> set l. i < length allData)" by blast
  qed
  have wv: "\<forall>i \<in> set wl. i < length allData" using valid worst(1) by blast
  from findPartnerClass_valid [OF others worst wv, of gs rnd p, folded classes_def]
  obtain wT wN wR wA where f: "findPartnerClass_Ultimate worstClass byClass allData gs rnd p =
     (case partnerLoop allData gs byClass wT wN wR wA classes None None of
        Inl e \<Rightarrow> Inl e
      | Inr bestPartner \<Rightarrow>
          if rnd p < 0.2 then Inr (pick classes (rnd (Suc p)), Suc (Suc p))
          else Inr (bestPartner, Suc p))"
    by blast
  from partnerLoop_result [OF cl, of gs wT wN wR wA None None]
  obtain b where "partnerLoop allData gs byClass wT wN wR wA classes None None = Inr b"
    by blast
  with f r show ?thesis by (simp add: classes_def)
qed

lemma rndRun_zero: "k < 701 \<Longrightarrow> rndRun k = 0"
  by (simp add: rndRun_def)

lemma validRun: "\<forall>k l. map_of byClassRun k = Some l \<longrightarrow> (\<forall>i \<in> set l. i < length allDataRun)"
  by (auto simp: byClassRun_def allDataRun_def split: if_splits)

lemma twoWayIter_stagnates:
  assumes bc: "st_byClass s = byClassRun" and p: "st_pos s + 14 \<le> 700"
  shows "twoWayIter allDataRun headersRun cohortRun (Some ctxBare) rndRun s =
           Inr (if st_stagnationCount s + 1 \<ge> stagnationLimit ULTIMATE_CONFIG then Break else Continue,
                s\<lparr> st_stagnationCount := st_stagnationCount s + 1, st_pos := st_pos s + 14 \<rparr>)"
proof -
  have w: "findWorstClass_Ultimate (st_byClass s) allDataRun cohortRun (Some ctxBare) = Inr (Some ''B'')"
    unfolding bc by code_simp
  have tw: "truthyKey (Some ''B'')" by (simp add: truthyKey_def)
  have others: "filter (\<lambda>k. k \<noteq> ''B'') (map fst byClassRun) \<noteq> []" by (simp add: byClassRun_def)
  have worst: "map_of byClassRun ''B'' = Some [3]" "[3::nat] \<noteq> []" by (simp_all add: byClassRun_def)
  have r0: "rndRun (st_pos s) < 0.2" using p by (simp add: rndRun_zero)
  have "findPartnerClass_Ultimate ''B'' byClassRun allDataRun cohortRun rndRun (st_pos s) =
          Inr (pick (filter (\<lambda>k. k \<noteq> ''B'') (map fst byClassRun)) (rndRun (Suc (st_pos s))),
               Suc (Suc (st_pos s)))"
    by (rule findPartnerClass_explore [where rnd = rndRun and p = "st_pos s",
          OF others worst validRun r0])
  moreover have "rndRun (Suc (st_pos s)) = 0" using p by (simp add: rndRun_zero)
  moreover have "pick (filter (\<lambda>k. k \<noteq> ''B'') (map fst byClassRun)) 0 = Some ''A''"
    by code_simp
  ultimately have fp: "findPartnerClass_Ultimate (the (Some ''B'')) (st_byClass s) allDataRun
      cohortRun rndRun (st_pos s) = Inr (Some ''A'', Suc (Suc (st_pos s)))"
    by (simp add: bc)
  have tk: "truthyKey (Some ''A'')" by (simp add: truthyKey_def)
  have l1: "map_of byClassRun ''B'' = Some [3]" and l2: "map_of byClassRun ''A'' = Some [0, 1, 2]"
    by (simp_all add: byClassRun_def)
  have sb: "addE (calculateScore_Ultimate [3] allDataRun cohortRun ''B'' (Some ctxBare))
                 (calculateScore_Ultimate [0, 1, 2] allDataRun cohortRun ''A'' (Some ctxBare))
            = Inr 8000"
    by code_simp
  have pk1: "pick [3::nat] 0 = Some 3" and e1: "elemAt allDataRun 3 = Some plainBoy"
    and f1: "\<not> isFixed plainBoy"
    and pk2: "pick [0::nat, 1, 2] 0 = Some 0" and e2: "elemAt allDataRun 0 = Some girlFixed"
    and f2: "isFixed girlFixed"
    by code_simp+
  have z: "\<forall>k. Suc (Suc (st_pos s)) \<le> k \<and> k < Suc (Suc (st_pos s)) + 3 * Suc 3 \<longrightarrow> rndRun k = 0"
    using p by (auto intro: rndRun_zero)
  have loop: "swapOuterLoop allDataRun headersRun cohortRun (Some ctxBare) rndRun ''B'' ''A'' [3]
                [0, 1, 2] 8000 3 3 (Suc (Suc (st_pos s))) (0, None)
              = Inr (Suc (Suc (st_pos s)) + 3 * Suc 3, (0, None))"
    by (rule swapOuterLoop_partner_fixed [where rnd = rndRun, OF pk1 e1 f1 pk2 e2 f2 z])
  have fb: "findBestSwapBetween_Ultimate (the (Some ''B'')) (the (Some ''A'')) allDataRun
              (st_byClass s) headersRun cohortRun (Some ctxBare) rndRun (Suc (Suc (st_pos s)))
            = Inr (None, st_pos s + 14)"
  proof -
    have ss: "min 25 (max (length [3::nat]) (length [0::nat, 1, 2])) = 3" by simp
    show ?thesis
      unfolding findBestSwapBetween_Ultimate_def option.sel bc l1 l2 option.case sb sum.case
        Let_def ss loop
      by simp
  qed
  from twoWayIter_not_applied [OF w tw fp tk fb] show ?thesis by simp
qed


lemma twoWayLoop_stagnates:
  assumes "k < 50" and "50 - k \<le> n"
  shows "twoWayLoop allDataRun headersRun cohortRun (Some ctxBare) rndRun n
           \<lparr> st_byClass = byClassRun, st_swapsApplied = 0, st_stagnationCount = k,
             st_swaps3Way = 0, st_pos = 14 * k \<rparr>
         = Inr stateStagnated"
  using assms
proof (induction n arbitrary: k)
  case 0
  then show ?case by simp
next
  case (Suc n)
  let ?s = "\<lparr> st_byClass = byClassRun, st_swapsApplied = 0, st_stagnationCount = k,
              st_swaps3Way = 0, st_pos = 14 * k \<rparr>"
  have it: "twoWayIter allDataRun headersRun cohortRun (Some ctxBare) rndRun ?s =
           Inr (if k + 1 \<ge> 50 then Break else Continue,
                \<lparr> st_byClass = byClassRun, st_swapsApplied = 0, st_stagnationCount = Suc k,
                  st_swaps3Way = 0, st_pos = 14 * Suc k \<rparr>)"
    using twoWayIter_stagnates [of ?s] Suc.prems(1) by (simp add: ULTIMATE_CONFIG_def)
  show ?case
  proof (cases "k + 1 \<ge> 50")
    case True
    with Suc.prems(1) have "Suc k = 50" by simp
    with it True show ?thesis by (simp add: stateStagnated_def)
  next
    case False
    then have "Suc k < 50" "50 - Suc k \<le> n" using Suc.prems by simp_all
    from Suc.IH [OF this] it False show ?thesis by simp
  qed
qed

lemma threeWayIter_example_stop:
  "threeWayIter allDataRun headersRun cohortRun (Some ctxBare) rndRun (map fst byClassRun)
     \<lparr> st_byClass = byClassRotated, st_swapsApplied = 1, st_stagnationCount = 50,
       st_swaps3Way = 1, st_pos = 775 \<rparr>
   = Inr (Break, \<lparr> st_byClass = byClassRotated, st_swapsApplied = 1, st_stagnationCount = 50,
                   st_swaps3Way = 1, st_pos = 820 \<rparr>)"
  by code_simp

lemma optimizeLoops_example:
  "optimizeLoops allDataRun byClassRun headersRun cohortRun (Some ctxBare) rndRun
   = Inr \<lparr> st_byClass = byClassRotated, st_swapsApplied = 1, st_stagnationCount = 50,
           st_swaps3Way = 1, st_pos = 820 \<rparr>"
proof -
  have two: "twoWayLoop allDataRun headersRun cohortRun (Some ctxBare) rndRun
               (maxSwaps ULTIMATE_CONFIG)
               \<lparr> st_byClass = byClassRun, st_swapsApplied = 0, st_stagnationCount = 0,
                 st_swaps3Way = 0, st_pos = 0 \<rparr> = Inr stateStagnated"
    using twoWayLoop_stagnates [of 0 "maxSwaps ULTIMATE_CONFIG"] by (simp add: ULTIMATE_CONFIG_def)
  have keys: "map fst (st_byClass stateStagnated) = map fst byClassRun"
    by (simp add: stateStagnated_def)
  have "threeWayLoop allDataRun headersRun cohortRun (Some ctxBare) rndRun (map fst byClassRun)
          (Suc (Suc n)) stateStagnated
        = Inr \<lparr> st_byClass = byClassRotated, st_swapsApplied = 1, st_stagnationCount = 50,
                st_swaps3Way = 1, st_pos = 820 \<rparr>" for n
    unfolding threeWayLoop.simps threeWayIter_example sum.case prod.case flow.case
      threeWayIter_example_stop ..
  from this [of 198] have three: "threeWayLoop allDataRun headersRun cohortRun (Some ctxBare)
          rndRun (map fst byClassRun) 200 stateStagnated
        = Inr \<lparr> st_byClass = byClassRotated, st_swapsApplied = 1, st_stagnationCount = 50,
                st_swaps3Way = 1, st_pos = 820 \<rparr>"
    by (simp add: eval_nat_numeral)
  show ?thesis
    unfolding optimizeLoops_def two sum.case keys three ..
qed

subsection \<open>A rotation that puts two students with the same antinomy code together\<close>

text \<open>
  C1 fails on the code. In the example the header row has the DISSO column and no class
  holds a DISSO code twice. The two-way loop stagnates without moving anyone (position
  700 of the draws); the first three-way iteration then samples \<open>a = 1\<close> in A, \<open>b = 3\<close> in
  B, \<open>c = 4\<close> in C; the two checks pass, the third leg (student 4, code D1, entering A
  where student 2 has code D1) is not checked, the gain is positive and the rotation is
  applied. The run ends with that assignment, saves it, and its own validator reports D1
  twice in A.
\<close>

theorem rotation_breaks_antinomy:
  "validateDISSOConstraints_Ultimate allDataRun byClassRun headersRun
     = Inr \<lparr> val_ok = True, val_message = None, val_duplicates = [] \<rparr>
   \<and> threeWayIter allDataRun headersRun (calculateGlobalStats_Ultimate allDataRun) (Some ctxBare)
       rndRun (map fst byClassRun)
       \<lparr> st_byClass = byClassRun, st_swapsApplied = 0, st_stagnationCount = 50,
         st_swaps3Way = 0, st_pos = 700 \<rparr>
     = Inr (Continue,
            \<lparr> st_byClass = [(''A'', [0, 2, 4]), (''B'', [1]), (''C'', [3])], st_swapsApplied = 1,
              st_stagnationCount = 50, st_swaps3Way = 1, st_pos = 775 \<rparr>)
   \<and> Phase4_Ultimate_Run ctxBare sheetsOk rndRun
       \<lparr> dr_ok = True, dr_allData = allDataRun, dr_byClass = byClassRun, dr_headers = headersRun \<rparr>
     = Inr (Success 1 1 \<lparr> save_ok = True, successCount = 3, errorCount = 0 \<rparr>
             \<lparr> val_ok = False, val_message = None,
               val_duplicates = [\<lparr> dup_classe = ''A'', dup_code = ''D1'', dup_count = 2,
                                    dup_members = [2, 4] \<rparr>] \<rparr>)"
proof -
  have a: "validateDISSOConstraints_Ultimate allDataRun byClassRun headersRun
             = Inr \<lparr> val_ok = True, val_message = None, val_duplicates = [] \<rparr>"
    by code_simp
  have b: "validateDISSOConstraints_Ultimate allDataRun byClassRotated headersRun
           = Inr \<lparr> val_ok = False, val_message = None,
                   val_duplicates = [\<lparr> dup_classe = ''A'', dup_code = ''D1'', dup_count = 2,
                                        dup_members = [2, 4] \<rparr>] \<rparr>"
    by code_simp
  have sv: "saveResults_Ultimate sheetsOk allDataRun byClassRotated headersRun
              = \<lparr> save_ok = True, successCount = 3, errorCount = 0 \<rparr>"
    by code_simp
  have run: "Phase4_Ultimate_Run ctxBare sheetsOk rndRun
       \<lparr> dr_ok = True, dr_allData = allDataRun, dr_byClass = byClassRun, dr_headers = headersRun \<rparr>
     = Inr (Success 1 1 \<lparr> save_ok = True, successCount = 3, errorCount = 0 \<rparr>
             \<lparr> val_ok = False, val_message = None,
               val_duplicates = [\<lparr> dup_classe = ''A'', dup_code = ''D1'', dup_count = 2,
                                    dup_members = [2, 4] \<rparr>] \<rparr>)"
    by (simp add: Phase4_Ultimate_Run_def cohortRun_eq optimizeLoops_example Let_def b sv)
  from a threeWayIter_example run show ?thesis
    by (simp add: cohortRun_eq stateStagnated_def byClassRotated_def)
qed

end
